theory Spec2Isabelle
  imports Main "HOL-Library.Multiset"
begin

section \<open>Go's regexp package, as far as the resolver uses it\<close>

text \<open>
  The resolver matches placeholders with \<^verbatim>\<open>regexp.FindAllStringSubmatch\<close>, and rewrites them
  with \<^verbatim>\<open>regexp.MustCompile\<close> and \<^verbatim>\<open>ReplaceAllString\<close>. Strings are byte lists; the model
  agrees with Go on ASCII text (Go decodes UTF-8 runes, which matters for \<^verbatim>\<open>.\<close> and for the
  step over an empty match only).

  A compiled expression is a syntax tree. The Boolean of a repetition is True for the
  greedy operator and False for the one followed by \<^verbatim>\<open>?\<close>.
\<close>

datatype regex =
    NoMatch
  | EmptyMatch
  | Literal char
  | AnyCharNotNL
  | CharClass "char list"
  | Concat regex regex
  | Alternate regex regex
  | Star bool regex
  | Plus bool regex
  | Quest bool regex
  | Capture nat regex

type_synonym captures = "(nat \<times> string) list"

fun weight :: "regex \<Rightarrow> nat" where
  "weight NoMatch = 1"
| "weight EmptyMatch = 1"
| "weight (Literal a) = 1"
| "weight AnyCharNotNL = 1"
| "weight (CharClass cs) = 1"
| "weight (Concat r1 r2) = weight r1 + weight r2 + 1"
| "weight (Alternate r1 r2) = weight r1 + weight r2 + 1"
| "weight (Star g r) = weight r + 1"
| "weight (Plus g r) = weight r + 2"
| "weight (Quest g r) = weight r + 1"
| "weight (Capture n r) = weight r + 1"

text \<open>
  Go returns the match "that a backtracking search would have found first". \<open>backtrack r s c\<close>
  lists, in the order of that search, every way \<open>r\<close> matches a prefix of \<open>s\<close>: the text left
  after the match and the capture groups set so far (latest first). An iteration of a
  repetition that consumes nothing is not repeated.
\<close>

function backtrack :: "regex \<Rightarrow> string \<Rightarrow> captures \<Rightarrow> (string \<times> captures) list" where
  "backtrack NoMatch s c = []"
| "backtrack EmptyMatch s c = [(s, c)]"
| "backtrack (Literal a) s c =
     (case s of [] \<Rightarrow> [] | x # xs \<Rightarrow> if x = a then [(xs, c)] else [])"
| "backtrack AnyCharNotNL s c =
     (case s of [] \<Rightarrow> [] | x # xs \<Rightarrow> if x \<noteq> CHR 0x0A then [(xs, c)] else [])"
| "backtrack (CharClass cs) s c =
     (case s of [] \<Rightarrow> [] | x # xs \<Rightarrow> if x \<in> set cs then [(xs, c)] else [])"
| "backtrack (Concat r1 r2) s c =
     concat (map (\<lambda>(s', c'). backtrack r2 s' c') (backtrack r1 s c))"
| "backtrack (Alternate r1 r2) s c = backtrack r1 s c @ backtrack r2 s c"
| "backtrack (Star greedy r) s c =
     (let again = concat (map (\<lambda>(s', c').
                     if length s' < length s then backtrack (Star greedy r) s' c' else [])
                   (backtrack r s c))
      in if greedy then again @ [(s, c)] else (s, c) # again)"
| "backtrack (Plus greedy r) s c =
     concat (map (\<lambda>(s', c'). backtrack (Star greedy r) s' c') (backtrack r s c))"
| "backtrack (Quest greedy r) s c =
     (if greedy then backtrack r s c @ [(s, c)] else (s, c) # backtrack r s c)"
| "backtrack (Capture n r) s c =
     map (\<lambda>(s', c'). (s', (n, take (length s - length s') s) # c')) (backtrack r s c)"
  by pat_completeness auto
termination
  by (relation "inv_image (less_than <*lex*> less_than) (\<lambda>(r, s, c). (weight r, length s))")
     auto

text \<open>The leftmost match in \<open>s\<close>: its start and end offsets and its capture groups.\<close>

fun search :: "regex \<Rightarrow> string \<Rightarrow> (nat \<times> nat \<times> captures) option" where
  "search re [] =
     (case backtrack re [] [] of [] \<Rightarrow> None | (s', c) # _ \<Rightarrow> Some (0, 0, c))"
| "search re (x # xs) =
     (case backtrack re (x # xs) [] of
        (s', c) # _ \<Rightarrow> Some (0, length (x # xs) - length s', c)
      | [] \<Rightarrow> (case search re xs of
                None \<Rightarrow> None
              | Some (a0, a1, c) \<Rightarrow> Some (Suc a0, Suc a1, c)))"

text \<open>\<^verbatim>\<open>re.doExecute(..., pos, ...)\<close>: the leftmost match that starts at or after \<open>pos\<close>.\<close>

definition doExecute :: "regex \<Rightarrow> string \<Rightarrow> nat \<Rightarrow> (nat \<times> nat \<times> captures) option" where
  "doExecute re s pos =
     (case search re (drop pos s) of
        None \<Rightarrow> None
      | Some (a0, a1, c) \<Rightarrow> Some (pos + a0, pos + a1, c))"

text \<open>A match never ends before it starts, nor after the end of the text.\<close>

declare backtrack.simps(8) [simp del]

lemma backtrack_length:
  "(s', c') \<in> set (backtrack re s c) \<Longrightarrow> length s' \<le> length s"
proof (induction re s c arbitrary: s' c' rule: backtrack.induct)
  case (1 s c)
  then show ?case by simp
next
  case (2 s c)
  then show ?case by simp
next
  case (3 a s c)
  then show ?case by (cases s) (simp_all split: if_splits)
next
  case (4 s c)
  then show ?case by (cases s) (simp_all split: if_splits)
next
  case (5 cs s c)
  then show ?case by (cases s) (simp_all split: if_splits)
next
  case (6 r1 r2 s c)
  from "6.prems" obtain s1 c1 where
    m1: "(s1, c1) \<in> set (backtrack r1 s c)" and m2: "(s', c') \<in> set (backtrack r2 s1 c1)"
    by auto
  from "6.IH"(1) [OF m1] "6.IH"(2) [OF m1 refl m2] show ?case by simp
next
  case (7 r1 r2 s c)
  then show ?case by auto
next
  case (8 greedy r s c)
  show ?case
  proof (cases "(s', c') = (s, c)")
    case True
    then show ?thesis by simp
  next
    case False
    with "8.prems" obtain s1 c1 where
      m1: "(s1, c1) \<in> set (backtrack r s c)" and lt: "length s1 < length s"
      and m2: "(s', c') \<in> set (backtrack (Star greedy r) s1 c1)"
      by (auto simp: backtrack.simps(8) [of greedy r s c] Let_def split: if_splits)
    from "8.IH"(2) [OF m1 refl lt m2] lt show ?thesis by simp
  qed
next
  case (9 greedy r s c)
  from "9.prems" obtain s1 c1 where
    m1: "(s1, c1) \<in> set (backtrack r s c)" and m2: "(s', c') \<in> set (backtrack (Star greedy r) s1 c1)"
    by auto
  from "9.IH"(1) [OF m1] "9.IH"(2) [OF m1 refl m2] show ?case by simp
next
  case (10 greedy r s c)
  then show ?case by (auto split: if_splits)
next
  case (11 n r s c)
  then show ?case by auto
qed

lemma search_bounds:
  "search re s = Some (a0, a1, c) \<Longrightarrow> a0 \<le> a1 \<and> a1 \<le> length s"
proof (induction s arbitrary: a0 a1 c)
  case Nil
  then show ?case by (auto split: list.splits)
next
  case (Cons x xs)
  show ?case
  proof (cases "backtrack re (x # xs) []")
    case Nil
    with Cons.prems obtain b0 b1 where
      "search re xs = Some (b0, b1, c)" "a0 = Suc b0" "a1 = Suc b1"
      by (auto split: option.splits)
    with Cons.IH show ?thesis by auto
  next
    case (Cons p ps)
    with Cons.prems show ?thesis by (auto split: prod.splits)
  qed
qed

lemma doExecute_bounds:
  "doExecute re s pos = Some (a0, a1, c) \<Longrightarrow> pos \<le> length s
     \<Longrightarrow> pos \<le> a0 \<and> a0 \<le> a1 \<and> a1 \<le> length s"
  by (auto simp: doExecute_def split: option.splits dest!: search_bounds)

text \<open>
  \<^verbatim>\<open>allMatches\<close>, the loop behind every \<^verbatim>\<open>FindAll\<close>: successive matches that do not overlap;
  an empty match right after the previous match is dropped. \<open>prevMatchEnd\<close> starts at -1.
  (Go also stops after \<open>len(s) + 1\<close> matches, a bound the loop cannot reach.)
\<close>

function allMatches :: "regex \<Rightarrow> string \<Rightarrow> nat \<Rightarrow> int \<Rightarrow> (nat \<times> nat \<times> captures) list" where
  "allMatches re s pos prevMatchEnd =
     (if pos \<le> length s then
        (case doExecute re s pos of
           None \<Rightarrow> []
         | Some (a0, a1, c) \<Rightarrow>
             (let accept = \<not> (a1 = pos \<and> int a0 = prevMatchEnd);
                  pos' = (if a1 = pos then (if pos < length s then pos + 1 else length s + 1)
                          else a1);
                  rest = allMatches re s pos' (int a1)
              in if accept then (a0, a1, c) # rest else rest))
      else [])"
  by pat_completeness auto
termination
proof (relation "measure (\<lambda>(re, s, pos, prevMatchEnd). Suc (length s) - pos)", goal_cases)
  case 1
  show ?case by simp
next
  case (2 re s pos prevMatchEnd x2 a0 y a1 c accept pos')
  then have ex: "doExecute re s pos = Some (a0, a1, c)" by simp
  have b: "pos \<le> a0 \<and> a0 \<le> a1 \<and> a1 \<le> length s"
    using doExecute_bounds [OF ex] 2(1) by simp
  have "pos < pos'" using b 2(1) 2(6) by (cases "a1 = pos") auto
  moreover have "pos \<le> length s" using 2(1) .
  ultimately show ?case by simp
qed

declare allMatches.simps [simp del]

text \<open>The number of capture groups, as \<^verbatim>\<open>re.NumSubexp()\<close>: the parser numbers them 1, 2, ...\<close>

fun numSubexp :: "regex \<Rightarrow> nat" where
  "numSubexp (Concat r1 r2) = max (numSubexp r1) (numSubexp r2)"
| "numSubexp (Alternate r1 r2) = max (numSubexp r1) (numSubexp r2)"
| "numSubexp (Star g r) = numSubexp r"
| "numSubexp (Plus g r) = numSubexp r"
| "numSubexp (Quest g r) = numSubexp r"
| "numSubexp (Capture n r) = max n (numSubexp r)"
| "numSubexp _ = 0"

text \<open>The text of group \<open>i\<close> of a match; a group that took no part in the match is empty.\<close>

definition groupText :: "string \<Rightarrow> nat \<times> nat \<times> captures \<Rightarrow> nat \<Rightarrow> string" where
  "groupText s m i =
     (case m of (a0, a1, c) \<Rightarrow>
        if i = 0 then take (a1 - a0) (drop a0 s)
        else (case map_of c i of None \<Rightarrow> [] | Some t \<Rightarrow> t))"

definition FindAllStringSubmatch :: "regex \<Rightarrow> string \<Rightarrow> string list list" where
  "FindAllStringSubmatch re s =
     map (\<lambda>m. map (groupText s m) [0..<Suc (numSubexp re)]) (allMatches re s 0 (- 1))"

text \<open>
  \<^verbatim>\<open>Expand\<close>: in a replacement, \<^verbatim>\<open>$$\<close> is a dollar sign, \<^verbatim>\<open>$name\<close> and \<^verbatim>\<open>${name}\<close> stand for
  the text of a capture group, and a \<^verbatim>\<open>$\<close> followed by neither is kept. \<open>extractName\<close> (Go's \<^verbatim>\<open>extract\<close>) reads the
  name after the dollar sign: the longest run of letters, digits and underscores. The model
  reads the letters and digits of ASCII; Go reads those of Unicode too, so that the two
  differ on a template in which a byte beyond ASCII follows a dollar sign or a name. The
  properties below that depend on the text of an expansion are stated for ASCII values or
  for values without a dollar sign.
\<close>

definition digitChars :: "char list" where
  "digitChars = ''0123456789''"

definition wordChars :: "char list" where
  "wordChars = ''0123456789ABCDEFGHIJKLMNOPQRSTUVWXYZabcdefghijklmnopqrstuvwxyz_''"

definition spaceChars :: "char list" where
  "spaceChars = [CHR 0x09, CHR 0x0A, CHR 0x0C, CHR 0x0D, CHR 0x20]"

definition extractName :: "string \<Rightarrow> (string \<times> string) option" where
  "extractName str =
     (case str of
        [] \<Rightarrow> None
      | x # xs \<Rightarrow>
          (let brace = (x = CHR ''{'');
               str1 = (if brace then xs else str);
               name = takeWhile (\<lambda>c. c \<in> set wordChars) str1;
               after = dropWhile (\<lambda>c. c \<in> set wordChars) str1
           in if name = [] then None
              else if brace then
                (case after of
                   [] \<Rightarrow> None
                 | y # rest \<Rightarrow> if y = CHR ''}'' then Some (name, rest) else None)
              else Some (name, after)))"

text \<open>
  The group number a name denotes, if it denotes one: decimal digits only, no leading zero,
  and the loop of the source gives up once the number reaches \<open>10^8\<close>.
\<close>

fun nameNumber :: "string \<Rightarrow> int \<Rightarrow> int option" where
  "nameNumber [] num = Some num"
| "nameNumber (d # ds) num =
     (if d \<notin> set digitChars \<or> num \<ge> 100000000 then None
      else nameNumber ds (num * 10 + (of_char d - 48)))"

definition groupOfName :: "string \<Rightarrow> int option" where
  "groupOfName name =
     (case nameNumber name 0 of
        None \<Rightarrow> None
      | Some num \<Rightarrow> if hd name = CHR ''0'' \<and> length name > 1 then None else Some num)"

lemma extractName_length:
  "extractName str = Some (name, rest) \<Longrightarrow> length rest \<le> length str"
proof -
  have le: "length (dropWhile P xs) \<le> length xs" for P and xs :: string
    by (induction xs) auto
  assume "extractName str = Some (name, rest)"
  then show ?thesis
    using le [of "\<lambda>c. c \<in> set wordChars" str] le [of "\<lambda>c. c \<in> set wordChars" "tl str"]
    by (cases str) (auto simp: extractName_def Let_def split: if_splits list.splits)
qed

text \<open>
  \<open>expand template whole c\<close>: the replacement text for a match whose text is \<open>whole\<close> and
  whose groups are \<open>c\<close>. The expressions of this model have no named groups, so a name that
  is not a number expands to nothing.
\<close>

function expand :: "string \<Rightarrow> string \<Rightarrow> captures \<Rightarrow> string" where
  "expand [] whole c = []"
| "expand (x # template) whole c =
     (if x \<noteq> CHR ''$'' then x # expand template whole c
      else (case template of
              [] \<Rightarrow> [CHR ''$'']
            | y # template' \<Rightarrow>
                if y = CHR ''$'' then CHR ''$'' # expand template' whole c
                else (case extractName template of
                        None \<Rightarrow> CHR ''$'' # expand template whole c
                      | Some (name, rest) \<Rightarrow>
                          (case groupOfName name of
                             None \<Rightarrow> []
                           | Some num \<Rightarrow>
                               if num = 0 then whole
                               else (case map_of c (nat num) of None \<Rightarrow> [] | Some t \<Rightarrow> t))
                          @ expand rest whole c)))"
  by pat_completeness auto
termination
proof (relation "measure (\<lambda>(template, whole, c). length template)", goal_cases)
  case (5 x template whole c y template' p name rest)
  then have "extractName template = Some (name, rest)" by simp
  from extractName_length [OF this] show ?case by simp
qed auto

text \<open>
  \<^verbatim>\<open>replaceAll\<close>, the loop behind \<^verbatim>\<open>ReplaceAllString\<close>: the text between matches is copied,
  every match is replaced, except an empty match right after the previous match; the
  search always moves on by at least one character.
\<close>

function replaceAll :: "regex \<Rightarrow> string \<Rightarrow> string \<Rightarrow> string \<Rightarrow> nat \<Rightarrow> nat \<Rightarrow> string" where
  "replaceAll re src repl buf lastMatchEnd searchPos =
     (if searchPos \<le> length src then
        (case doExecute re src searchPos of
           None \<Rightarrow> buf @ drop lastMatchEnd src
         | Some (a0, a1, c) \<Rightarrow>
             (let buf1 = buf @ take (a0 - lastMatchEnd) (drop lastMatchEnd src);
                  buf2 = (if a1 > lastMatchEnd \<or> a0 = 0
                          then buf1 @ expand repl (take (a1 - a0) (drop a0 src)) c
                          else buf1);
                  width = (if searchPos < length src then 1 else 0);
                  searchPos' = (if searchPos + width > a1 then searchPos + width
                                else if searchPos + 1 > a1 then searchPos + 1
                                else a1)
              in replaceAll re src repl buf2 a1 searchPos'))
      else buf @ drop lastMatchEnd src)"
  by pat_completeness auto
termination
proof (relation "measure (\<lambda>(re, src, repl, buf, lastMatchEnd, searchPos).
                            Suc (length src) - searchPos)", goal_cases)
  case 1
  show ?case by simp
next
  case (2 re src repl buf lastMatchEnd searchPos x2 a0 y a1 c buf1 buf2 width searchPos')
  then have ex: "doExecute re src searchPos = Some (a0, a1, c)" by simp
  have b: "searchPos \<le> a0 \<and> a0 \<le> a1 \<and> a1 \<le> length src"
    using doExecute_bounds [OF ex] 2(1) by simp
  have "searchPos < searchPos'" using b 2(1) 2(7) 2(8) by (auto split: if_splits)
  moreover have "searchPos \<le> length src" using 2(1) .
  ultimately show ?case by simp
qed

declare replaceAll.simps [simp del]

definition ReplaceAllString :: "regex \<Rightarrow> string \<Rightarrow> string \<Rightarrow> string" where
  "ReplaceAllString re src repl = replaceAll re src repl [] 0 0"

subsection \<open>The parser behind regexp.MustCompile\<close>

text \<open>
  \<^verbatim>\<open>regexp/syntax\<close> parses a pattern in one pass over its characters, with a stack of finished
  subexpressions and of the two pseudo-operators for an open parenthesis and a vertical bar.
  The model follows that pass for a fragment of the syntax: literals, \<^verbatim>\<open>.\<close>, the classes
  \<^verbatim>\<open>\s \d \w\<close>, an escaped punctuation character, the repetitions \<^verbatim>\<open>* + ?\<close> and their lazy
  forms, capturing parentheses and alternation. A pattern outside the fragment is reported
  as \<open>Unsupported\<close>: the model says nothing about it. Outside the fragment are \<^verbatim>\<open>^ $ [\<close>,
  \<^verbatim>\<open>(?\<close>, a \<^verbatim>\<open>{\<close> before a digit (it may open a counted repetition), every other escape,
  a \<^verbatim>\<open>*\<close> or \<^verbatim>\<open>+\<close> of an expression that matches the empty string, and bytes beyond ASCII.
  (The size limits of the package, which no placeholder of reasonable length reaches, are
  left out.)
\<close>

datatype 'a parsed = Parsed 'a | SyntaxError | Unsupported

datatype item = Node regex | LeftParen nat | VerticalBar

fun isNode :: "item \<Rightarrow> bool" where
  "isNode (Node r) = True"
| "isNode _ = False"

fun nodeOf :: "item \<Rightarrow> regex" where
  "nodeOf (Node r) = r"
| "nodeOf _ = NoMatch"

fun collapse :: "(regex \<Rightarrow> regex \<Rightarrow> regex) \<Rightarrow> regex list \<Rightarrow> regex" where
  "collapse opr [] = NoMatch"
| "collapse opr [r] = r"
| "collapse opr (r # rs) = opr r (collapse opr rs)"

text \<open>
  The stack has its top at the head. \<^verbatim>\<open>concat\<close> replaces the subexpressions above the
  topmost pseudo-operator by their concatenation (the empty match when there are none),
  \<^verbatim>\<open>alternate\<close> by their alternation.
\<close>

definition concatP :: "item list \<Rightarrow> item list" where
  "concatP stack =
     (let subs = rev (map nodeOf (takeWhile isNode stack))
      in Node (if subs = [] then EmptyMatch else collapse Concat subs) # dropWhile isNode stack)"

definition alternateP :: "item list \<Rightarrow> item list" where
  "alternateP stack =
     Node (collapse Alternate (rev (map nodeOf (takeWhile isNode stack))))
       # dropWhile isNode stack"

fun swapVerticalBar :: "item list \<Rightarrow> item list option" where
  "swapVerticalBar (re1 # VerticalBar # rest) = Some (VerticalBar # re1 # rest)"
| "swapVerticalBar _ = None"

definition parseVerticalBar :: "item list \<Rightarrow> item list" where
  "parseVerticalBar stack =
     (let st = concatP stack
      in case swapVerticalBar st of Some st' \<Rightarrow> st' | None \<Rightarrow> VerticalBar # st)"

text \<open>What a closing parenthesis and the end of the pattern both do first.\<close>

definition closeAlternation :: "item list \<Rightarrow> item list" where
  "closeAlternation stack =
     (let st = concatP stack
      in alternateP (case swapVerticalBar st of Some st' \<Rightarrow> tl st' | None \<Rightarrow> st))"

definition parseRightParen :: "item list \<Rightarrow> item list parsed" where
  "parseRightParen stack =
     (case closeAlternation stack of
        re1 # LeftParen cap # rest \<Rightarrow> Parsed (Node (Capture cap (nodeOf re1)) # rest)
      | _ \<Rightarrow> SyntaxError)"

fun nullable :: "regex \<Rightarrow> bool" where
  "nullable NoMatch = False"
| "nullable EmptyMatch = True"
| "nullable (Literal a) = False"
| "nullable AnyCharNotNL = False"
| "nullable (CharClass cs) = False"
| "nullable (Concat r1 r2) = (nullable r1 \<and> nullable r2)"
| "nullable (Alternate r1 r2) = (nullable r1 \<or> nullable r2)"
| "nullable (Star g r) = True"
| "nullable (Plus g r) = nullable r"
| "nullable (Quest g r) = True"
| "nullable (Capture n r) = nullable r"

text \<open>
  \<^verbatim>\<open>repeat\<close>: a repetition operator right after another one is an error, and so is one with
  nothing to repeat.
\<close>

definition repeatP :: "char \<Rightarrow> bool \<Rightarrow> bool \<Rightarrow> item list \<Rightarrow> item list parsed" where
  "repeatP opc greedy lastRepeat stack =
     (if lastRepeat then SyntaxError
      else (case stack of
              Node sub # rest \<Rightarrow>
                if opc = CHR ''?'' then Parsed (Node (Quest greedy sub) # rest)
                else if nullable sub then Unsupported
                else if opc = CHR ''*'' then Parsed (Node (Star greedy sub) # rest)
                else Parsed (Node (Plus greedy sub) # rest)
            | _ \<Rightarrow> SyntaxError))"

definition isAscii :: "char \<Rightarrow> bool" where
  "isAscii c = ((of_char c :: nat) < 128)"

definition alnumChars :: "char list" where
  "alnumChars = ''0123456789ABCDEFGHIJKLMNOPQRSTUVWXYZabcdefghijklmnopqrstuvwxyz''"

definition escapeP :: "char \<Rightarrow> regex parsed" where
  "escapeP e =
     (if e = CHR ''s'' then Parsed (CharClass spaceChars)
      else if e = CHR ''d'' then Parsed (CharClass digitChars)
      else if e = CHR ''w'' then Parsed (CharClass wordChars)
      else if isAscii e \<and> e \<notin> set alnumChars then Parsed (Literal e)
      else Unsupported)"

text \<open>
  One step of the pass, for the character \<open>c\<close> with the rest \<open>t\<close> of the pattern after it:
  the new stack, the new number of groups, whether the token was a repetition, and whether
  the token took a second character (the \<^verbatim>\<open>?\<close> of a lazy repetition, the escaped character).
\<close>

definition repeatStep ::
  "char \<Rightarrow> string \<Rightarrow> item list \<Rightarrow> nat \<Rightarrow> bool \<Rightarrow> (item list \<times> nat \<times> bool \<times> bool) parsed" where
  "repeatStep c t stack numCap lastRepeat =
     (let lazy = (case t of [] \<Rightarrow> False | q # t' \<Rightarrow> q = CHR ''?'')
      in case repeatP c (\<not> lazy) lastRepeat stack of
           Parsed stack' \<Rightarrow> Parsed (stack', numCap, True, lazy)
         | SyntaxError \<Rightarrow> SyntaxError
         | Unsupported \<Rightarrow> Unsupported)"

definition escapeStep ::
  "string \<Rightarrow> item list \<Rightarrow> nat \<Rightarrow> (item list \<times> nat \<times> bool \<times> bool) parsed" where
  "escapeStep t stack numCap =
     (case t of
        [] \<Rightarrow> SyntaxError
      | e # t' \<Rightarrow>
          (case escapeP e of
             Parsed re \<Rightarrow> Parsed (Node re # stack, numCap, False, True)
           | SyntaxError \<Rightarrow> SyntaxError
           | Unsupported \<Rightarrow> Unsupported))"

definition parseStep ::
  "char \<Rightarrow> string \<Rightarrow> item list \<Rightarrow> nat \<Rightarrow> bool \<Rightarrow> (item list \<times> nat \<times> bool \<times> bool) parsed" where
  "parseStep c t stack numCap lastRepeat =
     (if c = CHR ''('' then
        (if t \<noteq> [] \<and> hd t = CHR ''?'' then Unsupported
         else Parsed (LeftParen (numCap + 1) # stack, numCap + 1, False, False))
      else if c = CHR ''|'' then Parsed (parseVerticalBar stack, numCap, False, False)
      else if c = CHR '')'' then
        (case parseRightParen stack of
           Parsed stack' \<Rightarrow> Parsed (stack', numCap, False, False)
         | SyntaxError \<Rightarrow> SyntaxError
         | Unsupported \<Rightarrow> Unsupported)
      else if c = CHR ''^'' \<or> c = CHR ''$'' \<or> c = CHR ''['' then Unsupported
      else if c = CHR ''.'' then Parsed (Node AnyCharNotNL # stack, numCap, False, False)
      else if c = CHR ''*'' \<or> c = CHR ''+'' \<or> c = CHR ''?'' then
        repeatStep c t stack numCap lastRepeat
      else if c = CHR ''{'' then
        (if t \<noteq> [] \<and> hd t \<in> set digitChars then Unsupported
         else Parsed (Node (Literal c) # stack, numCap, False, False))
      else if c = CHR 0x5C then escapeStep t stack numCap
      else if isAscii c then Parsed (Node (Literal c) # stack, numCap, False, False)
      else Unsupported)"

text \<open>The pass: at the end of the pattern exactly one expression must be left.\<close>

function parseLoop :: "string \<Rightarrow> item list \<Rightarrow> nat \<Rightarrow> bool \<Rightarrow> regex parsed" where
  "parseLoop [] stack numCap lastRepeat =
     (case closeAlternation stack of [Node re] \<Rightarrow> Parsed re | _ \<Rightarrow> SyntaxError)"
| "parseLoop (c # t) stack numCap lastRepeat =
     (case parseStep c t stack numCap lastRepeat of
        Parsed (stack', numCap', lastRepeat', two) \<Rightarrow>
          parseLoop (if two then tl t else t) stack' numCap' lastRepeat'
      | SyntaxError \<Rightarrow> SyntaxError
      | Unsupported \<Rightarrow> Unsupported)"
  by pat_completeness auto
termination
  by (relation "measure (\<lambda>(t, stack, numCap, lastRepeat). length t)") auto

text \<open>\<^verbatim>\<open>regexp.MustCompile\<close> panics on a syntax error.\<close>

definition MustCompile :: "string \<Rightarrow> regex parsed" where
  "MustCompile str = parseLoop str [] 0 False"

section \<open>The resolver\<close>

subsection \<open>Data\<close>

text \<open>An error of Go is the message it carries (\<^verbatim>\<open>errors.New\<close>).\<close>

type_synonym error = string

text \<open>
  Modelled from the spec: the types \<^verbatim>\<open>SsmParameterInfo\<close> and \<^verbatim>\<open>ResolveOptions\<close> are declared in
  a file of the package that is not part of the sources at hand. The resolver reads the
  fields \<^verbatim>\<open>Value\<close> and \<^verbatim>\<open>Type\<close> of the first (it compares \<^verbatim>\<open>Type\<close> with a string constant) and the
  field \<^verbatim>\<open>ResolveSecureParameters\<close> of the second.
\<close>

record SsmParameterInfo =
  Value :: string
  Type :: string

record ResolveOptions =
  ResolveSecureParameters :: bool

text \<open>
  A Go map is the list of its entries, with distinct keys. A \<^verbatim>\<open>range\<close> loop visits the entries
  in an order the runtime chooses anew for every loop: \<open>rangeOrder ord m\<close> is the order of
  one loop, picked by the numbers \<open>ord\<close> (entry number \<open>i mod length m\<close> first, then the same
  on the rest). Every order of the entries is \<open>rangeOrder ord m\<close> for some \<open>ord\<close>.
\<close>

type_synonym resolution = "(string \<times> SsmParameterInfo) list"

fun rangeOrder :: "nat list \<Rightarrow> 'a list \<Rightarrow> 'a list" where
  "rangeOrder [] m = m"
| "rangeOrder (i # ord) [] = []"
| "rangeOrder (i # ord) (e # m) =
     (let j = i mod length (e # m)
      in (e # m) ! j # rangeOrder ord (take j (e # m) @ drop (Suc j) (e # m)))"

text \<open>The assignment \<^verbatim>\<open>m[k] = v\<close>.\<close>

fun mapAssign :: "'k \<Rightarrow> 'v \<Rightarrow> ('k \<times> 'v) list \<Rightarrow> ('k \<times> 'v) list" where
  "mapAssign k v [] = [(k, v)]"
| "mapAssign k v ((k', v') # m) =
     (if k' = k then (k, v) # m else (k', v') # mapAssign k v m)"

text \<open>
  The orders of the \<^verbatim>\<open>range\<close> loops of one run: over the map that removes duplicate
  references, over the looked-up parameters in the policy check, and over the looked-up
  parameters in the substitution.
\<close>

record rangeOrders =
  refsOrder :: "nat list"
  filterOrder :: "nat list"
  substOrder :: "nat list"

text \<open>
  What a call does besides returning: it returns to its caller, or \<^verbatim>\<open>log.Fatal\<close> ends the
  process, or it panics. \<open>Unmodelled\<close> stands for a run that compiles a pattern outside the
  fragment of the regular-expression syntax modelled above.
\<close>

datatype 'a outcome = Returns 'a | Exits error | Panics | Unmodelled

text \<open>
  The trace of a run: the reference lists the lookup port was called with and the
  (text, file name) pairs the output shim was called with, oldest first.
\<close>

record world =
  lookups :: "string list list"
  writes :: "(string \<times> string) list"

text \<open>
  Modelled from the spec: the declarations of the package that the sources at hand use but
  do not contain. They are parameters of the model: the two compiled placeholder patterns
  \<^verbatim>\<open>parameterPlaceholder\<close> and \<^verbatim>\<open>secureParameterPlaceholder\<close>, the constants \<^verbatim>\<open>ssmSecurePrefix\<close>
  and \<^verbatim>\<open>secureStringType\<close>, the lookup port \<^verbatim>\<open>getParametersFromSsmParameterStore\<close> (Go returns a
  map and an error; the resolver looks at the map only when the error is nil), and the text
  I/O shim \<^verbatim>\<open>validateFileAndSize\<close>, \<^verbatim>\<open>readTextFromFile\<close>, \<^verbatim>\<open>writeToFile\<close>.
\<close>

record 'svc deps =
  parameterPlaceholder :: regex
  secureParameterPlaceholder :: regex
  ssmSecurePrefix :: string
  secureStringType :: string
  getParametersFromSsmParameterStore :: "'svc \<Rightarrow> string list \<Rightarrow> error + resolution"
  validateFileAndSize :: "string \<Rightarrow> error option"
  readTextFromFile :: "string \<Rightarrow> error + string"
  writeToFile :: "string \<Rightarrow> string \<Rightarrow> error option"

subsection \<open>Operations\<close>

definition HasPrefix :: "string \<Rightarrow> string \<Rightarrow> bool" where
  "HasPrefix s pre = (take (length pre) s = pre)"

definition dedupSlice :: "nat list \<Rightarrow> string list \<Rightarrow> string list" where
  "dedupSlice ord slice =
     (let ht = foldl (\<lambda>ht element. mapAssign element True ht) [] slice
      in map fst (rangeOrder ord ht))"

text \<open>
  The two loops of \<^verbatim>\<open>parseParametersFromTextIntoMap\<close> that read \<^verbatim>\<open>matchedPhrases[i][1]\<close>: the
  index panics when the pattern has no capture group.
\<close>

fun collectNames :: "string list list \<Rightarrow> (string \<times> bool) list \<Rightarrow> (string \<times> bool) list option" where
  "collectNames [] parameterNamesDeduped = Some parameterNamesDeduped"
| "collectNames (phrase # phrases) parameterNamesDeduped =
     (if 1 < length phrase
      then collectNames phrases (mapAssign (phrase ! 1) True parameterNamesDeduped)
      else None)"

definition notAllowed :: error where
  "notAllowed = ''resolving secure parameters is not allowed''"

definition parseParametersFromTextIntoMap ::
  "'svc deps \<Rightarrow> nat list \<Rightarrow> string \<Rightarrow> ResolveOptions \<Rightarrow> (error + string list) outcome" where
  "parseParametersFromTextIntoMap d ord text options =
     (let matchedPhrases = FindAllStringSubmatch (parameterPlaceholder d) text;
          matchedSecurePhrases = FindAllStringSubmatch (secureParameterPlaceholder d) text
      in if \<not> ResolveSecureParameters options \<and> length matchedSecurePhrases > 0
         then Returns (Inl notAllowed)
         else (case collectNames matchedPhrases [] of
                 None \<Rightarrow> Panics
               | Some names1 \<Rightarrow>
                   (case collectNames matchedSecurePhrases names1 of
                      None \<Rightarrow> Panics
                    | Some names2 \<Rightarrow> Returns (Inr (map fst (rangeOrder ord names2))))))"

text \<open>
  The policy check after the lookup, which \<^verbatim>\<open>ExtractParametersFromText\<close> and
  \<^verbatim>\<open>ResolveParameterReferenceList\<close> both spell out.
\<close>

definition isSecure :: "'svc deps \<Rightarrow> string \<Rightarrow> SsmParameterInfo \<Rightarrow> bool" where
  "isSecure d key value = (HasPrefix key (ssmSecurePrefix d) \<or> Type value = secureStringType d)"

definition invalidParameters :: "'svc deps \<Rightarrow> nat list \<Rightarrow> resolution \<Rightarrow> string list" where
  "invalidParameters d ord parametersWithValues =
     map fst (filter (\<lambda>(key, value). isSecure d key value)
                (rangeOrder ord parametersWithValues))"

definition policyCheck ::
  "'svc deps \<Rightarrow> nat list \<Rightarrow> ResolveOptions \<Rightarrow> resolution \<Rightarrow> error + resolution" where
  "policyCheck d ord options parametersWithValues =
     (if \<not> ResolveSecureParameters options
         \<and> length (invalidParameters d ord parametersWithValues) > 0
      then Inl notAllowed
      else Inr parametersWithValues)"

text \<open>The call of the lookup port, and what follows it in both operations.\<close>

definition lookupAndCheck ::
  "'svc deps \<Rightarrow> rangeOrders \<Rightarrow> 'svc \<Rightarrow> string list \<Rightarrow> ResolveOptions \<Rightarrow> world
     \<Rightarrow> (error + resolution) outcome \<times> world" where
  "lookupAndCheck d ords service uniqueParameterReferences options w =
     (let w' = w\<lparr>lookups := lookups w @ [uniqueParameterReferences]\<rparr>
      in case getParametersFromSsmParameterStore d service uniqueParameterReferences of
           Inl err \<Rightarrow> (Exits err, w')
         | Inr parametersWithValues \<Rightarrow>
             (Returns (policyCheck d (filterOrder ords) options parametersWithValues), w'))"

definition ExtractParametersFromText ::
  "'svc deps \<Rightarrow> rangeOrders \<Rightarrow> 'svc \<Rightarrow> string \<Rightarrow> ResolveOptions \<Rightarrow> world
     \<Rightarrow> (error + resolution) outcome \<times> world" where
  "ExtractParametersFromText d ords service input options w =
     (case parseParametersFromTextIntoMap d (refsOrder ords) input options of
        Returns (Inl err) \<Rightarrow> (Returns (Inl err), w)
      | Returns (Inr uniqueParameterReferences) \<Rightarrow>
          lookupAndCheck d ords service uniqueParameterReferences options w
      | Exits err \<Rightarrow> (Exits err, w)
      | Panics \<Rightarrow> (Panics, w)
      | Unmodelled \<Rightarrow> (Unmodelled, w))"

definition ResolveParameterReferenceList ::
  "'svc deps \<Rightarrow> rangeOrders \<Rightarrow> 'svc \<Rightarrow> string list \<Rightarrow> ResolveOptions \<Rightarrow> world
     \<Rightarrow> (error + resolution) outcome \<times> world" where
  "ResolveParameterReferenceList d ords service parameterReferences options w =
     lookupAndCheck d ords service (dedupSlice (refsOrder ords) parameterReferences) options w"

text \<open>
  The substitution loop of \<^verbatim>\<open>ResolveParametersInText\<close> and \<^verbatim>\<open>ResolveParametersInFile\<close>, over the
  entries in the order the \<^verbatim>\<open>range\<close> visits them. The pattern is the Go string
  \<^verbatim>\<open>"{{\\s*" + ref + "\\s*}}"\<close>.
\<close>

definition placeholderPattern :: "string \<Rightarrow> string" where
  "placeholderPattern ref = ''{{'' @ [CHR 0x5C] @ ''s*'' @ ref @ [CHR 0x5C] @ ''s*}}''"

fun substitute :: "resolution \<Rightarrow> string \<Rightarrow> string outcome" where
  "substitute [] input = Returns input"
| "substitute ((ref, param) # entries) input =
     (case MustCompile (placeholderPattern ref) of
        SyntaxError \<Rightarrow> Panics
      | Unsupported \<Rightarrow> Unmodelled
      | Parsed placeholder \<Rightarrow>
          substitute entries (ReplaceAllString placeholder input (Value param)))"

definition ResolveParametersInText ::
  "'svc deps \<Rightarrow> rangeOrders \<Rightarrow> 'svc \<Rightarrow> string \<Rightarrow> ResolveOptions \<Rightarrow> world
     \<Rightarrow> (string \<times> error option) outcome \<times> world" where
  "ResolveParametersInText d ords service input options w =
     (case ExtractParametersFromText d ords service input options w of
        (Returns (Inl err), w') \<Rightarrow> (Returns (input, Some err), w')
      | (Returns (Inr resolvedParametersMap), w') \<Rightarrow>
          if length resolvedParametersMap = 0 then (Returns (input, None), w')
          else (case substitute (rangeOrder (substOrder ords) resolvedParametersMap) input of
                  Returns output \<Rightarrow> (Returns (output, None), w')
                | Exits err \<Rightarrow> (Exits err, w')
                | Panics \<Rightarrow> (Panics, w')
                | Unmodelled \<Rightarrow> (Unmodelled, w'))
      | (Exits err, w') \<Rightarrow> (Exits err, w')
      | (Panics, w') \<Rightarrow> (Panics, w')
      | (Unmodelled, w') \<Rightarrow> (Unmodelled, w'))"

definition ResolveParametersInFile ::
  "'svc deps \<Rightarrow> rangeOrders \<Rightarrow> 'svc \<Rightarrow> string \<Rightarrow> string \<Rightarrow> ResolveOptions \<Rightarrow> world
     \<Rightarrow> error option outcome \<times> world" where
  "ResolveParametersInFile d ords service inputFileName outputFileName options w =
     (if length inputFileName = 0 then (Returns (Some ''input file name is not provided''), w)
      else if length outputFileName = 0
      then (Returns (Some ''output file name is not provided''), w)
      else (case validateFileAndSize d inputFileName of
              Some errorInFileOrSize \<Rightarrow> (Returns (Some errorInFileOrSize), w)
            | None \<Rightarrow>
                (case readTextFromFile d inputFileName of
                   Inl err \<Rightarrow> (Returns (Some err), w)
                 | Inr unresolvedText \<Rightarrow>
                     (case ExtractParametersFromText d ords service unresolvedText options w of
                        (Returns (Inl err), w') \<Rightarrow> (Returns (Some err), w')
                      | (Returns (Inr resolvedParametersMap), w') \<Rightarrow>
                          if length resolvedParametersMap = 0 then (Returns None, w')
                          else (case substitute
                                       (rangeOrder (substOrder ords) resolvedParametersMap)
                                       unresolvedText of
                                  Returns resolvedText \<Rightarrow>
                                    (let w'' = w'\<lparr>writes := writes w' @ [(resolvedText, outputFileName)]\<rparr>
                                     in case writeToFile d resolvedText outputFileName of
                                          Some err \<Rightarrow> (Exits err, w'')
                                        | None \<Rightarrow> (Returns None, w''))
                                | Exits err \<Rightarrow> (Exits err, w')
                                | Panics \<Rightarrow> (Panics, w')
                                | Unmodelled \<Rightarrow> (Unmodelled, w'))
                      | (Exits err, w') \<Rightarrow> (Exits err, w')
                      | (Panics, w') \<Rightarrow> (Panics, w')
                      | (Unmodelled, w') \<Rightarrow> (Unmodelled, w')))))"

subsection \<open>A configuration to run the model on\<close>

text \<open>
  Modelled from the spec: a configuration in the sense of the spec's examples, used to run
  the model on concrete inputs. The plain pattern is \<^verbatim>\<open>{{\s*([\w/]+)\s*}}\<close>, the secure
  pattern is \<^verbatim>\<open>{{\s*(ssm-secure:[\w/]+)\s*}}\<close>, the secure prefix is \<^verbatim>\<open>ssm-secure:\<close> and the
  secure type is \<^verbatim>\<open>SecureString\<close>. The service is the table the lookup port answers from:
  the port fails when the service is \<open>Inl\<close> of an error, and otherwise returns the entries of
  the table whose keys were asked for. The input shim reads the one file \<^verbatim>\<open>in.txt\<close>, whose
  content is a parameter; the output shim succeeds.
\<close>

definition nameChars :: "char list" where
  "nameChars = wordChars @ ''/''"

definition examplePlain :: regex where
  "examplePlain =
     collapse Concat
       [Literal CHR ''{'', Literal CHR ''{'', Star True (CharClass spaceChars),
        Capture 1 (Plus True (CharClass nameChars)),
        Star True (CharClass spaceChars), Literal CHR ''}'', Literal CHR ''}'']"

definition exampleSecure :: regex where
  "exampleSecure =
     collapse Concat
       [Literal CHR ''{'', Literal CHR ''{'', Star True (CharClass spaceChars),
        Capture 1 (collapse Concat (map Literal ''ssm-secure:'' @ [Plus True (CharClass nameChars)])),
        Star True (CharClass spaceChars), Literal CHR ''}'', Literal CHR ''}'']"

definition examplePort :: "error + resolution \<Rightarrow> string list \<Rightarrow> error + resolution" where
  "examplePort service refs =
     (case service of
        Inl err \<Rightarrow> Inl err
      | Inr table \<Rightarrow> Inr (filter (\<lambda>(key, value). key \<in> set refs) table))"


definition exampleDeps :: "string \<Rightarrow> (error + resolution) deps" where
  "exampleDeps content =
     \<lparr> parameterPlaceholder = examplePlain,
       secureParameterPlaceholder = exampleSecure,
       ssmSecurePrefix = ''ssm-secure:'',
       secureStringType = ''SecureString'',
       getParametersFromSsmParameterStore = examplePort,
       validateFileAndSize = (\<lambda>name. if name = ''in.txt'' then None else Some ''no such file''),
       readTextFromFile = (\<lambda>name. if name = ''in.txt'' then Inr content else Inl ''no such file''),
       writeToFile = (\<lambda>text name. None) \<rparr>"

definition noOrders :: rangeOrders where
  "noOrders = \<lparr> refsOrder = [], filterOrder = [], substOrder = [] \<rparr>"

definition emptyWorld :: world where
  "emptyWorld = \<lparr> lookups = [], writes = [] \<rparr>"

definition secureOff :: ResolveOptions where
  "secureOff = \<lparr> ResolveSecureParameters = False \<rparr>"

definition secureOn :: ResolveOptions where
  "secureOn = \<lparr> ResolveSecureParameters = True \<rparr>"

definition plainInfo :: "string \<Rightarrow> SsmParameterInfo" where
  "plainInfo v = \<lparr> Value = v, Type = ''String'' \<rparr>"

definition secureInfo :: "string \<Rightarrow> SsmParameterInfo" where
  "secureInfo v = \<lparr> Value = v, Type = ''SecureString'' \<rparr>"

subsection \<open>Texts made of placeholders\<close>

text \<open>
  The notions the properties of the substitution are stated with. A plain reference is a
  non-empty name of ASCII characters none of which is white space or has a meaning in a
  regular expression; \<open>placeholderRe ref\<close> is the expression that \<^verbatim>\<open>"{{\\s*" + ref + "\\s*}}"\<close>
  compiles to for such a name. A text is given by its segments: placeholders (white space,
  a plain reference, white space between the braces) and other text, which has no \<^verbatim>\<open>{{\<close> and
  does not end in \<^verbatim>\<open>{\<close>. \<open>replaced key repl\<close> is what one \<^verbatim>\<open>ReplaceAllString\<close> for \<open>key\<close> makes
  of a segment; \<open>resolvedSeg m\<close> is a segment after the substitution of a map whose values
  are literal: without \<^verbatim>\<open>$\<close>, without \<^verbatim>\<open>{{\<close> and not ending in \<^verbatim>\<open>{\<close>.
\<close>

definition metaChars :: "char list" where
  "metaChars = CHR 0x5C # ''.+*?()|[{}^$''"

definition plainChar :: "char \<Rightarrow> bool" where
  "plainChar c = (isAscii c \<and> c \<notin> set metaChars \<and> c \<notin> set spaceChars)"

definition plainRef :: "string \<Rightarrow> bool" where
  "plainRef ref = (ref \<noteq> [] \<and> list_all plainChar ref)"

definition spaces :: "string \<Rightarrow> bool" where
  "spaces ws = list_all (\<lambda>c. c \<in> set spaceChars) ws"

definition placeholderRe :: "string \<Rightarrow> regex" where
  "placeholderRe ref =
     collapse Concat
       ([Literal CHR ''{'', Literal CHR ''{'', Star True (CharClass spaceChars)]
        @ map Literal ref
        @ [Star True (CharClass spaceChars), Literal CHR ''}'', Literal CHR ''}''])"

datatype segment = Plain string | Occurrence string string string

fun segText :: "segment \<Rightarrow> string" where
  "segText (Plain s) = s"
| "segText (Occurrence ws1 ref ws2) = ''{{'' @ ws1 @ ref @ ws2 @ ''}}''"

definition render :: "segment list \<Rightarrow> string" where
  "render segs = concat (map segText segs)"

fun noOpen :: "string \<Rightarrow> bool" where
  "noOpen [] = True"
| "noOpen [a] = (a \<noteq> CHR ''{'')"
| "noOpen (a # b # s) = (\<not> (a = CHR ''{'' \<and> b = CHR ''{'') \<and> noOpen (b # s))"

fun wellFormed :: "segment \<Rightarrow> bool" where
  "wellFormed (Plain s) = noOpen s"
| "wellFormed (Occurrence ws1 ref ws2) = (spaces ws1 \<and> plainRef ref \<and> spaces ws2)"

fun replaced :: "string \<Rightarrow> string \<Rightarrow> segment \<Rightarrow> string" where
  "replaced key repl (Plain s) = s"
| "replaced key repl (Occurrence ws1 ref ws2) =
     (if ref = key then expand repl (segText (Occurrence ws1 ref ws2)) []
      else segText (Occurrence ws1 ref ws2))"

fun substSeg :: "string \<Rightarrow> string \<Rightarrow> segment \<Rightarrow> segment" where
  "substSeg key v (Plain s) = Plain s"
| "substSeg key v (Occurrence ws1 ref ws2) =
     (if ref = key then Plain v else Occurrence ws1 ref ws2)"

fun resolvedSeg :: "resolution \<Rightarrow> segment \<Rightarrow> segment" where
  "resolvedSeg m (Plain s) = Plain s"
| "resolvedSeg m (Occurrence ws1 ref ws2) =
     (case map_of m ref of
        None \<Rightarrow> Occurrence ws1 ref ws2
      | Some param \<Rightarrow> Plain (Value param))"

definition literalValue :: "string \<Rightarrow> bool" where
  "literalValue v = (CHR ''$'' \<notin> set v \<and> noOpen v)"

text \<open>Two notions for the proofs: the end of the pattern, and a match moved to the right.\<close>

definition tailItems :: "regex list" where
  "tailItems = [Star True (CharClass spaceChars), Literal CHR ''}'', Literal CHR ''}'']"

definition shiftMatch :: "nat \<Rightarrow> (nat \<times> nat \<times> captures) option \<Rightarrow> (nat \<times> nat \<times> captures) option" where
  "shiftMatch n m = map_option (\<lambda>(a0, a1, c). (n + a0, n + a1, c)) m"

section \<open>Properties\<close>

subsection \<open>The policy on secure parameters\<close>

lemma mset_rangeOrder: "mset (rangeOrder ord m) = mset m"
proof (induction ord m rule: rangeOrder.induct)
  case (3 i ord e m)
  define j where "j = i mod length (e # m)"
  have lt: "j < length (e # m)" unfolding j_def by simp
  have "mset (e # m) = mset (take j (e # m) @ (e # m) ! j # drop (Suc j) (e # m))"
    using id_take_nth_drop [OF lt] by simp
  also have "\<dots> = add_mset ((e # m) ! j) (mset (take j (e # m) @ drop (Suc j) (e # m)))"
    by simp
  finally show ?case using "3.IH" [OF j_def] by (simp add: Let_def j_def)
qed simp_all

lemma set_rangeOrder: "set (rangeOrder ord m) = set m"
  using mset_rangeOrder [of ord m] by (metis set_mset_mset)

text \<open>Every order of the entries of a map is the order of some \<^verbatim>\<open>range\<close> loop of the model.\<close>

lemma rangeOrder_complete:
  "mset m' = mset m \<Longrightarrow> \<exists>ord. rangeOrder ord m = m'"
proof (induction m' arbitrary: m)
  case Nil
  then have "m = []" by simp
  then show ?case by (intro exI [of _ "[]"]) simp
next
  case (Cons x xs)
  then have "x \<in> set m" by (metis list.set_intros(1) set_mset_mset)
  then obtain j where j: "j < length m" "m ! j = x"
    by (auto simp: in_set_conv_nth)
  have split: "m = take j m @ x # drop (Suc j) m"
    using id_take_nth_drop [OF j(1)] j(2) by simp
  have "mset m = add_mset x (mset (take j m @ drop (Suc j) m))"
    by (subst split) simp
  with Cons.prems have "mset xs = mset (take j m @ drop (Suc j) m)" by simp
  from Cons.IH [OF this] obtain ord where ord: "rangeOrder ord (take j m @ drop (Suc j) m) = xs"
    by blast
  from j(1) obtain e m0 where m: "m = e # m0" by (cases m) auto
  have "rangeOrder (j # ord) m = x # xs"
    using j ord unfolding m by (simp add: Let_def)
  then show ?case by blast
qed

lemma invalidParameters_empty:
  "invalidParameters d ord m = [] \<longleftrightarrow> (\<forall>(key, value) \<in> set m. \<not> isSecure d key value)"
  by (auto simp: invalidParameters_def filter_empty_conv set_rangeOrder)

lemma policyCheck_cases:
  "policyCheck d ord options m =
     (if \<not> ResolveSecureParameters options \<and> (\<exists>(key, value) \<in> set m. isSecure d key value)
      then Inl notAllowed else Inr m)"
  using invalidParameters_empty [of d ord m] by (auto simp: policyCheck_def)

text \<open>
  Claim C1. With \<^verbatim>\<open>ResolveSecureParameters\<close> off, a map that \<^verbatim>\<open>ExtractParametersFromText\<close> or
  \<^verbatim>\<open>ResolveParameterReferenceList\<close> returns has no key that starts with the secure prefix and
  no value of the secure type; and when the lookup port returns a map with such an entry,
  the operation returns the policy error and no map.
\<close>

theorem no_secure_entry_without_permission:
  assumes off: "\<not> ResolveSecureParameters options"
  shows "(\<forall>m w'. ExtractParametersFromText d ords service input options w = (Returns (Inr m), w')
            \<longrightarrow> (\<forall>(key, value) \<in> set m.
                   \<not> HasPrefix key (ssmSecurePrefix d) \<and> Type value \<noteq> secureStringType d))
       \<and> (\<forall>m w'. ResolveParameterReferenceList d ords service parameterReferences options w
                    = (Returns (Inr m), w')
            \<longrightarrow> (\<forall>(key, value) \<in> set m.
                   \<not> HasPrefix key (ssmSecurePrefix d) \<and> Type value \<noteq> secureStringType d))
       \<and> (\<forall>refs m. parseParametersFromTextIntoMap d (refsOrder ords) input options = Returns (Inr refs)
              \<and> getParametersFromSsmParameterStore d service refs = Inr m
              \<and> (\<exists>(key, value) \<in> set m.
                     HasPrefix key (ssmSecurePrefix d) \<or> Type value = secureStringType d)
            \<longrightarrow> fst (ExtractParametersFromText d ords service input options w)
                  = Returns (Inl ''resolving secure parameters is not allowed''))
       \<and> (\<forall>m. getParametersFromSsmParameterStore d service
                  (dedupSlice (refsOrder ords) parameterReferences) = Inr m
              \<and> (\<exists>(key, value) \<in> set m.
                     HasPrefix key (ssmSecurePrefix d) \<or> Type value = secureStringType d)
            \<longrightarrow> fst (ResolveParameterReferenceList d ords service parameterReferences options w)
                  = Returns (Inl ''resolving secure parameters is not allowed''))"
proof -
  have look: "lookupAndCheck d ords service refs options w = (Returns (Inr m), w')
        \<Longrightarrow> \<forall>(key, value) \<in> set m. \<not> isSecure d key value" for refs m w'
    using off by (auto simp: lookupAndCheck_def policyCheck_cases Let_def split: sum.splits if_splits)
  have deny: "getParametersFromSsmParameterStore d service refs = Inr m
        \<Longrightarrow> \<exists>(key, value) \<in> set m. isSecure d key value
        \<Longrightarrow> fst (lookupAndCheck d ords service refs options w) = Returns (Inl notAllowed)" for refs m
    using off by (auto simp: lookupAndCheck_def policyCheck_cases Let_def)
  have 1: "ExtractParametersFromText d ords service input options w = (Returns (Inr m), w')
        \<Longrightarrow> \<forall>(key, value) \<in> set m. \<not> isSecure d key value" for m w'
    using look by (auto simp: ExtractParametersFromText_def split: outcome.splits sum.splits)
  have 2: "ResolveParameterReferenceList d ords service parameterReferences options w = (Returns (Inr m), w')
        \<Longrightarrow> \<forall>(key, value) \<in> set m. \<not> isSecure d key value" for m w'
    using look by (auto simp: ResolveParameterReferenceList_def)
  have 3: "parseParametersFromTextIntoMap d (refsOrder ords) input options = Returns (Inr refs)
        \<Longrightarrow> getParametersFromSsmParameterStore d service refs = Inr m
        \<Longrightarrow> \<exists>(key, value) \<in> set m. isSecure d key value
        \<Longrightarrow> fst (ExtractParametersFromText d ords service input options w) = Returns (Inl notAllowed)" for refs m
    using deny by (simp add: ExtractParametersFromText_def)
  have 4: "getParametersFromSsmParameterStore d service (dedupSlice (refsOrder ords) parameterReferences) = Inr m
        \<Longrightarrow> \<exists>(key, value) \<in> set m. isSecure d key value
        \<Longrightarrow> fst (ResolveParameterReferenceList d ords service parameterReferences options w) = Returns (Inl notAllowed)" for m
    using deny by (simp add: ResolveParameterReferenceList_def)
  show ?thesis
    using 1 2 3 4 unfolding isSecure_def notAllowed_def by blast
qed


theorem no_secure_entry_without_permission_witness:
  "\<not> ResolveSecureParameters secureOff
   \<and> parseParametersFromTextIntoMap (exampleDeps []) (refsOrder noOrders) ''{{ a }}'' secureOff
       = Returns (Inr [''a''])
   \<and> getParametersFromSsmParameterStore (exampleDeps []) (Inr [(''a'', secureInfo ''X'')]) [''a'']
       = Inr [(''a'', secureInfo ''X'')]
   \<and> Type (secureInfo ''X'') = secureStringType (exampleDeps [])
   \<and> fst (ExtractParametersFromText (exampleDeps []) noOrders (Inr [(''a'', secureInfo ''X'')])
            ''{{ a }}'' secureOff emptyWorld)
       = Returns (Inl ''resolving secure parameters is not allowed'')"
proof -
  have off: "\<not> ResolveSecureParameters secureOff"
    by (simp add: secureOff_def)
  have parsed: "parseParametersFromTextIntoMap (exampleDeps []) (refsOrder noOrders) ''{{ a }}'' secureOff
       = Returns (Inr [''a''])"
    by code_simp
  have port: "getParametersFromSsmParameterStore (exampleDeps []) (Inr [(''a'', secureInfo ''X'')]) [''a'']
       = Inr [(''a'', secureInfo ''X'')]"
    by (simp add: exampleDeps_def examplePort_def)
  have ty: "Type (secureInfo ''X'') = secureStringType (exampleDeps [])"
    by (simp add: exampleDeps_def secureInfo_def)
  have sec: "\<exists>(key, value) \<in> set [(''a'', secureInfo ''X'')].
        HasPrefix key (ssmSecurePrefix (exampleDeps [])) \<or> Type value = secureStringType (exampleDeps [])"
    using ty by simp
  from no_secure_entry_without_permission [OF off, of "exampleDeps []" noOrders "Inr [(''a'', secureInfo ''X'')]" "''{{ a }}''" emptyWorld "[]"]
  have "fst (ExtractParametersFromText (exampleDeps []) noOrders (Inr [(''a'', secureInfo ''X'')])
            ''{{ a }}'' secureOff emptyWorld)
       = Returns (Inl ''resolving secure parameters is not allowed'')"
    using parsed port sec by blast
  with off parsed port ty show ?thesis by blast
qed

lemma rangeOrder_Nil [simp]: "rangeOrder ord [] = []"
  by (cases ord) simp_all

subsection \<open>The check on secure placeholders before the lookup\<close>

text \<open>
  Claim C3. With \<^verbatim>\<open>ResolveSecureParameters\<close> off, a text with at least one match of the secure
  pattern makes the parser, and with it \<^verbatim>\<open>ExtractParametersFromText\<close>, return the error
  "resolving secure parameters is not allowed"; the trace is unchanged, so the lookup port
  was not called.
\<close>

theorem secure_placeholder_rejected_before_lookup:
  assumes "\<not> ResolveSecureParameters options"
    and "FindAllStringSubmatch (secureParameterPlaceholder d) input \<noteq> []"
  shows "parseParametersFromTextIntoMap d (refsOrder ords) input options
           = Returns (Inl ''resolving secure parameters is not allowed'')
         \<and> ExtractParametersFromText d ords service input options w
           = (Returns (Inl ''resolving secure parameters is not allowed''), w)
         \<and> lookups (snd (ExtractParametersFromText d ords service input options w)) = lookups w"
proof -
  have "parseParametersFromTextIntoMap d (refsOrder ords) input options = Returns (Inl notAllowed)"
    using assms by (simp add: parseParametersFromTextIntoMap_def Let_def)
  then show ?thesis
    by (simp add: ExtractParametersFromText_def notAllowed_def)
qed

theorem secure_placeholder_rejected_before_lookup_witness:
  "\<not> ResolveSecureParameters secureOff
   \<and> FindAllStringSubmatch (secureParameterPlaceholder (exampleDeps []))
        ''Secret: {{ ssm-secure:db/pass }}'' \<noteq> []
   \<and> ExtractParametersFromText (exampleDeps []) noOrders (Inr [(''ssm-secure:db/pass'', secureInfo ''p@ss'')])
        ''Secret: {{ ssm-secure:db/pass }}'' secureOff emptyWorld
       = (Returns (Inl ''resolving secure parameters is not allowed''), emptyWorld)"
proof -
  have off: "\<not> ResolveSecureParameters secureOff"
    by (simp add: secureOff_def)
  have found: "FindAllStringSubmatch (secureParameterPlaceholder (exampleDeps []))
        ''Secret: {{ ssm-secure:db/pass }}'' = [[''{{ ssm-secure:db/pass }}'', ''ssm-secure:db/pass'']]"
    by code_simp
  then have ne: "FindAllStringSubmatch (secureParameterPlaceholder (exampleDeps []))
        ''Secret: {{ ssm-secure:db/pass }}'' \<noteq> []"
    by simp
  from secure_placeholder_rejected_before_lookup [OF off ne] off ne show ?thesis
    by blast
qed

subsection \<open>Errors of text resolution\<close>

text \<open>
  Claim C10. When \<^verbatim>\<open>ResolveParametersInText\<close> returns an error, the text it returns with it is
  the input, and the substitution loop has not run.
\<close>

theorem text_is_input_on_error:
  assumes "ResolveParametersInText d ords service input options w = (Returns (text, Some err), w')"
  shows "text = input
         \<and> fst (ExtractParametersFromText d ords service input options w) = Returns (Inl err)"
  using assms
  by (auto simp: ResolveParametersInText_def split: prod.splits outcome.splits sum.splits if_splits)

theorem text_is_input_on_error_witness:
  "ResolveParametersInText (exampleDeps []) noOrders (Inr [(''a'', secureInfo ''X'')])
      ''{{ a }} and {{a}}'' secureOff emptyWorld
     = (Returns (''{{ a }} and {{a}}'', Some ''resolving secure parameters is not allowed''),
        \<lparr>lookups = [[''a'']], writes = []\<rparr>)
   \<and> fst (ExtractParametersFromText (exampleDeps []) noOrders (Inr [(''a'', secureInfo ''X'')])
      ''{{ a }} and {{a}}'' secureOff emptyWorld)
     = Returns (Inl ''resolving secure parameters is not allowed'')"
proof -
  have run: "ResolveParametersInText (exampleDeps []) noOrders (Inr [(''a'', secureInfo ''X'')])
      ''{{ a }} and {{a}}'' secureOff emptyWorld
     = (Returns (''{{ a }} and {{a}}'', Some ''resolving secure parameters is not allowed''),
        \<lparr>lookups = [[''a'']], writes = []\<rparr>)"
    by code_simp
  from text_is_input_on_error [OF run] run show ?thesis by blast
qed

subsection \<open>Texts without placeholders\<close>

text \<open>
  Claim C7, as amended. For a text in which neither pattern matches, whatever the options,
  \<^verbatim>\<open>ExtractParametersFromText\<close> calls the lookup port once, with the empty reference list, and
  the answer of the port decides the result. When the port answers with the empty map,
  \<^verbatim>\<open>ExtractParametersFromText\<close> returns the empty map without an error and
  \<^verbatim>\<open>ResolveParametersInText\<close> returns the input without an error. When the port fails, both
  end the process. When the port answers with another map, \<^verbatim>\<open>ExtractParametersFromText\<close>
  returns what the policy check makes of it.
\<close>

theorem no_placeholders_port_decides:
  assumes "FindAllStringSubmatch (parameterPlaceholder d) input = []"
    and "FindAllStringSubmatch (secureParameterPlaceholder d) input = []"
  shows "lookups (snd (ExtractParametersFromText d ords service input options w)) = lookups w @ [[]]
         \<and> (getParametersFromSsmParameterStore d service [] = Inr []
            \<longrightarrow> ExtractParametersFromText d ords service input options w
                  = (Returns (Inr []), w\<lparr>lookups := lookups w @ [[]]\<rparr>)
                \<and> ResolveParametersInText d ords service input options w
                  = (Returns (input, None), w\<lparr>lookups := lookups w @ [[]]\<rparr>))
         \<and> (getParametersFromSsmParameterStore d service [] = Inl err
            \<longrightarrow> ExtractParametersFromText d ords service input options w
                  = (Exits err, w\<lparr>lookups := lookups w @ [[]]\<rparr>)
                \<and> ResolveParametersInText d ords service input options w
                  = (Exits err, w\<lparr>lookups := lookups w @ [[]]\<rparr>))
         \<and> (getParametersFromSsmParameterStore d service [] = Inr m
            \<longrightarrow> ExtractParametersFromText d ords service input options w
                  = (Returns (policyCheck d (filterOrder ords) options m),
                     w\<lparr>lookups := lookups w @ [[]]\<rparr>))"
proof -
  have parsed: "parseParametersFromTextIntoMap d (refsOrder ords) input options = Returns (Inr [])"
    using assms by (simp add: parseParametersFromTextIntoMap_def)
  then have ex: "ExtractParametersFromText d ords service input options w
      = lookupAndCheck d ords service [] options w"
    by (simp add: ExtractParametersFromText_def)
  have 1: "lookups (snd (ExtractParametersFromText d ords service input options w)) = lookups w @ [[]]"
    unfolding ex by (simp add: lookupAndCheck_def Let_def split: sum.splits)
  have 2: "ExtractParametersFromText d ords service input options w
                  = (Returns (Inr []), w\<lparr>lookups := lookups w @ [[]]\<rparr>)
                \<and> ResolveParametersInText d ords service input options w
                  = (Returns (input, None), w\<lparr>lookups := lookups w @ [[]]\<rparr>)"
    if "getParametersFromSsmParameterStore d service [] = Inr []"
  proof -
    have "ExtractParametersFromText d ords service input options w
                  = (Returns (Inr []), w\<lparr>lookups := lookups w @ [[]]\<rparr>)"
      unfolding ex using that
      by (simp add: lookupAndCheck_def policyCheck_def invalidParameters_def)
    then show ?thesis by (simp add: ResolveParametersInText_def)
  qed
  have 3: "ExtractParametersFromText d ords service input options w
                  = (Exits err, w\<lparr>lookups := lookups w @ [[]]\<rparr>)
                \<and> ResolveParametersInText d ords service input options w
                  = (Exits err, w\<lparr>lookups := lookups w @ [[]]\<rparr>)"
    if "getParametersFromSsmParameterStore d service [] = Inl err"
  proof -
    have "ExtractParametersFromText d ords service input options w
                  = (Exits err, w\<lparr>lookups := lookups w @ [[]]\<rparr>)"
      unfolding ex using that by (simp add: lookupAndCheck_def)
    then show ?thesis by (simp add: ResolveParametersInText_def)
  qed
  have 4: "ExtractParametersFromText d ords service input options w
                  = (Returns (policyCheck d (filterOrder ords) options m),
                     w\<lparr>lookups := lookups w @ [[]]\<rparr>)"
    if "getParametersFromSsmParameterStore d service [] = Inr m"
    unfolding ex using that by (simp add: lookupAndCheck_def)
  from 1 2 3 4 show ?thesis by blast
qed

theorem no_placeholders_port_decides_witness:
  "FindAllStringSubmatch (parameterPlaceholder (exampleDeps [])) ''port = 8080 {not one}'' = []
   \<and> FindAllStringSubmatch (secureParameterPlaceholder (exampleDeps [])) ''port = 8080 {not one}'' = []
   \<and> getParametersFromSsmParameterStore (exampleDeps []) (Inr [(''a'', plainInfo ''X'')]) [] = Inr []
   \<and> ResolveParametersInText (exampleDeps []) noOrders (Inr [(''a'', plainInfo ''X'')])
        ''port = 8080 {not one}'' secureOff emptyWorld
       = (Returns (''port = 8080 {not one}'', None), emptyWorld\<lparr>lookups := lookups emptyWorld @ [[]]\<rparr>)
   \<and> getParametersFromSsmParameterStore (exampleDeps []) (Inl ''store unreachable'') []
       = Inl ''store unreachable''
   \<and> ResolveParametersInText (exampleDeps []) noOrders (Inl ''store unreachable'')
        ''port = 8080 {not one}'' secureOff emptyWorld
       = (Exits ''store unreachable'', emptyWorld\<lparr>lookups := lookups emptyWorld @ [[]]\<rparr>)"
proof -
  have p: "FindAllStringSubmatch (parameterPlaceholder (exampleDeps [])) ''port = 8080 {not one}'' = []"
    by code_simp
  have s: "FindAllStringSubmatch (secureParameterPlaceholder (exampleDeps [])) ''port = 8080 {not one}'' = []"
    by code_simp
  have e: "getParametersFromSsmParameterStore (exampleDeps []) (Inr [(''a'', plainInfo ''X'')]) [] = Inr []"
    by (simp add: exampleDeps_def examplePort_def)
  have f: "getParametersFromSsmParameterStore (exampleDeps []) (Inl ''store unreachable'') []
       = Inl ''store unreachable''"
    by (simp add: exampleDeps_def examplePort_def)
  from no_placeholders_port_decides [OF p s, of noOrders "Inr [(''a'', plainInfo ''X'')]" secureOff
         emptyWorld "[]" "[]"] e
  have ok: "ResolveParametersInText (exampleDeps []) noOrders (Inr [(''a'', plainInfo ''X'')])
        ''port = 8080 {not one}'' secureOff emptyWorld
       = (Returns (''port = 8080 {not one}'', None), emptyWorld\<lparr>lookups := lookups emptyWorld @ [[]]\<rparr>)"
    by blast
  from no_placeholders_port_decides [OF p s, of noOrders "Inl ''store unreachable''" secureOff
         emptyWorld "''store unreachable''" "[]"] f
  have bad: "ResolveParametersInText (exampleDeps []) noOrders (Inl ''store unreachable'')
        ''port = 8080 {not one}'' secureOff emptyWorld
       = (Exits ''store unreachable'', emptyWorld\<lparr>lookups := lookups emptyWorld @ [[]]\<rparr>)"
    by blast
  from p s e ok f bad show ?thesis by blast
qed

text \<open>
  Claim C7 as stated fails: for a text without placeholders the lookup port is still
  called, and when it fails neither operation returns: the process ends.
\<close>

theorem no_placeholders_store_unreachable:
  "FindAllStringSubmatch (parameterPlaceholder (exampleDeps [])) ''port = 8080 {not one}'' = []
   \<and> FindAllStringSubmatch (secureParameterPlaceholder (exampleDeps [])) ''port = 8080 {not one}'' = []
   \<and> ExtractParametersFromText (exampleDeps []) noOrders (Inl ''store unreachable'')
        ''port = 8080 {not one}'' secureOff emptyWorld
       = (Exits ''store unreachable'', \<lparr>lookups = [[]], writes = []\<rparr>)
   \<and> ResolveParametersInText (exampleDeps []) noOrders (Inl ''store unreachable'')
        ''port = 8080 {not one}'' secureOff emptyWorld
       = (Exits ''store unreachable'', \<lparr>lookups = [[]], writes = []\<rparr>)"
  by code_simp

subsection \<open>Where the process ends\<close>









subsection \<open>Resolution of a file\<close>

text \<open>
  Claim C6. A successful run of \<^verbatim>\<open>ResolveParametersInFile\<close> should end with the resolved text
  written to the output file, also when the text has no placeholder. For a text without
  placeholders the code returns no error and does not call the output shim: no file is
  written.
\<close>

theorem file_without_placeholders_not_written:
  "ResolveParametersInFile (exampleDeps ''port = 8080'') noOrders (Inr [(''a'', plainInfo ''X'')])
      ''in.txt'' ''out.txt'' secureOff emptyWorld
     = (Returns None, \<lparr>lookups = [[]], writes = []\<rparr>)"
  by code_simp

text \<open>With a placeholder, the same run writes the resolved text.\<close>

lemma file_with_placeholder_written:
  "ResolveParametersInFile (exampleDeps ''port = {{ a }}'') noOrders (Inr [(''a'', plainInfo ''X'')])
      ''in.txt'' ''out.txt'' secureOff emptyWorld
     = (Returns None, \<lparr>lookups = [[''a'']], writes = [(''port = X'', ''out.txt'')]\<rparr>)"
  by code_simp

text \<open>
  In general: whenever the lookup returns an empty map, the run returns without an error
  and without a call of the output shim.
\<close>

lemma empty_map_not_written:
  assumes "inputFileName \<noteq> []" "outputFileName \<noteq> []"
    and "validateFileAndSize d inputFileName = None"
    and "readTextFromFile d inputFileName = Inr unresolvedText"
    and "ExtractParametersFromText d ords service unresolvedText options w = (Returns (Inr []), w')"
  shows "ResolveParametersInFile d ords service inputFileName outputFileName options w
           = (Returns None, w')
         \<and> writes w' = writes w"
proof -
  have "writes (snd (ExtractParametersFromText d ords service input options w)) = writes w" for input
    by (auto simp: ExtractParametersFromText_def lookupAndCheck_def Let_def
        split: outcome.splits sum.splits)
  from this [of unresolvedText] assms show ?thesis
    by (simp add: ResolveParametersInFile_def)
qed

text \<open>
  A run of \<^verbatim>\<open>ResolveParametersInFile\<close> that gets a non-empty map and whose substitution and
  write succeed returns no error and has called the output shim once, with the resolved
  text and the name of the output file.
\<close>

lemma resolved_file_written:
  assumes "inputFileName \<noteq> []" "outputFileName \<noteq> []"
    and "validateFileAndSize d inputFileName = None"
    and "readTextFromFile d inputFileName = Inr unresolvedText"
    and "ExtractParametersFromText d ords service unresolvedText options w = (Returns (Inr m), w')"
    and "m \<noteq> []"
    and "substitute (rangeOrder (substOrder ords) m) unresolvedText = Returns resolvedText"
    and "writeToFile d resolvedText outputFileName = None"
  shows "ResolveParametersInFile d ords service inputFileName outputFileName options w
           = (Returns None, w'\<lparr>writes := writes w' @ [(resolvedText, outputFileName)]\<rparr>)"
  using assms by (simp add: ResolveParametersInFile_def Let_def)

subsection \<open>Keys that do not compile\<close>


lemma substitute_Panics:
  "(ref, param) \<in> set entries \<Longrightarrow> MustCompile (placeholderPattern ref) = SyntaxError
     \<Longrightarrow> \<forall>(ref', param') \<in> set entries. MustCompile (placeholderPattern ref') \<noteq> Unsupported
     \<Longrightarrow> substitute entries input = Panics"
  by (induction entries input rule: substitute.induct) (auto split: parsed.splits)




subsection \<open>The pattern of a plain reference\<close>

lemma collapse_Cons: "rs \<noteq> [] \<Longrightarrow> collapse opr (r # rs) = opr r (collapse opr rs)"
  by (cases rs) simp_all

lemma backtrack_Literal_Concat:
  "backtrack (Concat (Literal a) r) s c =
     (case s of [] \<Rightarrow> [] | x # xs \<Rightarrow> if x = a then backtrack r xs c else [])"
  by (cases s) simp_all

lemma backtrack_Star_space_Nil:
  "backtrack (Star True (CharClass cs)) [] c = [([], c)]"
  by (simp add: backtrack.simps(8))

lemma backtrack_Star_space_other:
  "x \<notin> set cs \<Longrightarrow> backtrack (Star True (CharClass cs)) (x # xs) c = [(x # xs, c)]"
  by (simp add: backtrack.simps(8))

lemma backtrack_Star_space_step:
  "x \<in> set cs \<Longrightarrow> backtrack (Star True (CharClass cs)) (x # xs) c
     = backtrack (Star True (CharClass cs)) xs c @ [(x # xs, c)]"
  by (simp add: backtrack.simps(8) [of True "CharClass cs" "x # xs" c])

text \<open>Greedy white space in front of an expression that cannot start with white space.\<close>

lemma skip_spaces:
  assumes ws: "spaces ws"
    and rej: "\<And>x xs c. x \<in> set spaceChars \<Longrightarrow> backtrack r (x # xs) c = []"
    and rest: "rest = [] \<or> hd rest \<notin> set spaceChars"
  shows "backtrack (Concat (Star True (CharClass spaceChars)) r) (ws @ rest) c = backtrack r rest c"
  using ws
proof (induction ws)
  case Nil
  show ?case
  proof (cases rest)
    case Nil
    then show ?thesis by (simp add: backtrack_Star_space_Nil)
  next
    case (Cons x xs)
    with rest have "x \<notin> set spaceChars" by simp
    with Cons show ?thesis by (simp add: backtrack_Star_space_other)
  qed
next
  case (Cons w ws)
  then have w: "w \<in> set spaceChars" and ws: "spaces ws" by (simp_all add: spaces_def)
  have "backtrack (Concat (Star True (CharClass spaceChars)) r) ((w # ws) @ rest) c
      = backtrack (Concat (Star True (CharClass spaceChars)) r) (ws @ rest) c
        @ backtrack r (w # ws @ rest) c"
    using w by (simp add: backtrack_Star_space_step)
  with Cons.IH [OF ws] rej [OF w] show ?case by simp
qed


lemma plainChar_facts:
  "plainChar a \<Longrightarrow> a \<notin> set spaceChars"
  "plainChar a \<Longrightarrow> a \<noteq> CHR ''{''"
  "plainChar a \<Longrightarrow> a \<noteq> CHR ''}''"
  by (auto simp: plainChar_def metaChars_def)

lemma brace_not_space: "CHR ''}'' \<notin> set spaceChars" "CHR ''{'' \<notin> set spaceChars"
  by (simp_all add: spaceChars_def)

lemma tail_match:
  assumes "spaces ws"
  shows "backtrack (collapse Concat tailItems) (ws @ ''}}'' @ rest) c = [(rest, c)]"
proof -
  have rej: "\<And>x xs c. x \<in> set spaceChars
      \<Longrightarrow> backtrack (Concat (Literal CHR ''}'') (Literal CHR ''}'')) (x # xs) c = []"
    using brace_not_space(1) by (auto simp: backtrack_Literal_Concat)
  have "backtrack (Concat (Star True (CharClass spaceChars))
            (Concat (Literal CHR ''}'') (Literal CHR ''}''))) (ws @ (''}}'' @ rest)) c
      = backtrack (Concat (Literal CHR ''}'') (Literal CHR ''}'')) (''}}'' @ rest) c"
    by (rule skip_spaces [OF assms rej]) (simp_all add: brace_not_space)
  then show ?thesis by (simp add: tailItems_def)
qed

lemma tail_reject:
  assumes "plainChar p"
  shows "backtrack (collapse Concat tailItems) (p # xs) c = []"
proof -
  have rej: "\<And>x xs c. x \<in> set spaceChars
      \<Longrightarrow> backtrack (Concat (Literal CHR ''}'') (Literal CHR ''}'')) (x # xs) c = []"
    using brace_not_space(1) by (auto simp: backtrack_Literal_Concat)
  have "backtrack (Concat (Star True (CharClass spaceChars))
            (Concat (Literal CHR ''}'') (Literal CHR ''}''))) ([] @ (p # xs)) c
      = backtrack (Concat (Literal CHR ''}'') (Literal CHR ''}'')) (p # xs) c"
    by (rule skip_spaces [OF _ rej]) (simp_all add: spaces_def plainChar_facts(1) [OF assms])
  then show ?thesis
    using plainChar_facts(3) [OF assms] by (simp add: tailItems_def backtrack_Literal_Concat)
qed

text \<open>The literal part of the pattern against the name in the text.\<close>

lemma name_match:
  assumes "list_all plainChar k" "list_all plainChar r" "spaces ws"
  shows "backtrack (collapse Concat (map Literal k @ tailItems)) (r @ ws @ ''}}'' @ rest) c
           = (if k = r then [(rest, c)] else [])"
  using assms(1,2)
proof (induction k arbitrary: r)
  case Nil
  show ?case
  proof (cases r)
    case Nil
    then show ?thesis using tail_match [OF assms(3)] by simp
  next
    case (Cons p r')
    with Nil.prems have "plainChar p" by simp
    from tail_reject [OF this] Cons show ?thesis by simp
  qed
next
  case (Cons a k)
  have ne: "map Literal k @ tailItems \<noteq> []" by (simp add: tailItems_def)
  have unf: "collapse Concat (Literal a # map Literal k @ tailItems)
      = Concat (Literal a) (collapse Concat (map Literal k @ tailItems))"
    using collapse_Cons [OF ne] by simp
  from Cons.prems have a: "plainChar a" and k: "list_all plainChar k" by simp_all
  show ?case
  proof (cases r)
    case Nil
    have "ws @ ''}}'' @ rest \<noteq> []" by simp
    moreover have "hd (ws @ ''}}'' @ rest) \<in> set spaceChars \<or> hd (ws @ ''}}'' @ rest) = CHR ''}''"
      using assms(3) by (cases ws) (simp_all add: spaces_def)
    ultimately obtain x xs where x: "ws @ ''}}'' @ rest = x # xs" and "x \<noteq> a"
      using plainChar_facts(1,3) [OF a] by (cases "ws @ ''}}'' @ rest") auto
    with Nil show ?thesis by (simp add: unf backtrack_Literal_Concat x)
  next
    case (Cons b r')
    with Cons.prems have r': "list_all plainChar r'" by simp
    from Cons.IH [OF k r'] Cons show ?thesis
      by (auto simp: unf backtrack_Literal_Concat)
  qed
qed

lemma placeholderRe_unfold:
  "placeholderRe k =
     Concat (Literal CHR ''{'') (Concat (Literal CHR ''{'')
       (Concat (Star True (CharClass spaceChars)) (collapse Concat (map Literal k @ tailItems))))"
proof -
  have ne: "map Literal k @ tailItems \<noteq> []" by (simp add: tailItems_def)
  show ?thesis
    using collapse_Cons [OF ne, of Concat "Star True (CharClass spaceChars)"]
    by (simp add: placeholderRe_def tailItems_def)
qed

text \<open>
  At the start of a placeholder the pattern of \<open>k\<close> matches exactly when the placeholder
  names \<open>k\<close>, and then it matches the whole placeholder.
\<close>

lemma occurrence_match:
  assumes k: "plainRef k" and wf: "wellFormed (Occurrence ws1 r ws2)"
  shows "backtrack (placeholderRe k) (segText (Occurrence ws1 r ws2) @ rest) c
           = (if r = k then [(rest, c)] else [])"
proof -
  from k obtain a k' where ak: "k = a # k'" and a: "plainChar a" and pk: "list_all plainChar k"
    by (cases k) (auto simp: plainRef_def)
  from wf obtain b r' where br: "r = b # r'" and b: "plainChar b" and pr: "list_all plainChar r"
    and w1: "spaces ws1" and w2: "spaces ws2"
    by (cases r) (auto simp: plainRef_def)
  have ne: "map Literal k' @ tailItems \<noteq> []" by (simp add: tailItems_def)
  have rej: "\<And>x xs c. x \<in> set spaceChars
      \<Longrightarrow> backtrack (collapse Concat (map Literal k @ tailItems)) (x # xs) c = []"
    using collapse_Cons [OF ne, of Concat "Literal a"] plainChar_facts(1) [OF a]
    by (auto simp: ak backtrack_Literal_Concat)
  have hd: "r @ ws2 @ ''}}'' @ rest = [] \<or> hd (r @ ws2 @ ''}}'' @ rest) \<notin> set spaceChars"
    using plainChar_facts(1) [OF b] unfolding br by simp
  have "backtrack (Concat (Star True (CharClass spaceChars)) (collapse Concat (map Literal k @ tailItems)))
          (ws1 @ (r @ ws2 @ ''}}'' @ rest)) c
      = backtrack (collapse Concat (map Literal k @ tailItems)) (r @ ws2 @ ''}}'' @ rest) c"
    by (rule skip_spaces [OF w1 rej hd])
  also have "\<dots> = (if k = r then [(rest, c)] else [])"
    by (rule name_match [OF pk pr w2])
  finally show ?thesis
    by (auto simp: placeholderRe_unfold backtrack_Literal_Concat)
qed

lemma no_match_other_start:
  "x \<noteq> CHR ''{'' \<Longrightarrow> backtrack (placeholderRe k) (x # xs) c = []"
  by (simp add: placeholderRe_unfold backtrack_Literal_Concat)

lemma no_match_single_brace:
  "y \<noteq> CHR ''{'' \<Longrightarrow> backtrack (placeholderRe k) (x # y # xs) c = []"
  by (simp add: placeholderRe_unfold backtrack_Literal_Concat)

lemma no_match_empty: "backtrack (placeholderRe k) [] c = []"
  by (simp add: placeholderRe_unfold backtrack_Literal_Concat)


subsection \<open>The search for the pattern of a plain reference\<close>

lemma shiftMatch_simps [simp]:
  "shiftMatch n None = None"
  "shiftMatch n (Some (a0, a1, c)) = Some (n + a0, n + a1, c)"
  "shiftMatch 0 m = m"
  "shiftMatch a (shiftMatch b m) = shiftMatch (a + b) m"
  by (cases m; auto simp: shiftMatch_def)+

lemma search_fail_step:
  "backtrack re (x # xs) [] = [] \<Longrightarrow> search re (x # xs) = shiftMatch 1 (search re xs)"
  by (auto simp: shiftMatch_def split: option.splits)

lemma search_hit:
  "backtrack re s [] = (s', c) # others \<Longrightarrow> search re s = Some (0, length s - length s', c)"
  by (cases s) simp_all

lemma doExecute_append:
  "doExecute re (pre @ s) (length pre) = shiftMatch (length pre) (search re s)"
  by (auto simp: doExecute_def shiftMatch_def split: option.splits)

lemma search_skip_plain:
  "noOpen s \<Longrightarrow> search (placeholderRe k) (s @ rest)
     = shiftMatch (length s) (search (placeholderRe k) rest)"
proof (induction s rule: noOpen.induct)
  case 1
  show ?case by simp
next
  case (2 a)
  then show ?case
    using search_fail_step [OF no_match_other_start, of a k rest] by simp
next
  case (3 a b s)
  then have tl: "search (placeholderRe k) ((b # s) @ rest)
      = shiftMatch (length (b # s)) (search (placeholderRe k) rest)"
    by simp
  have "backtrack (placeholderRe k) (a # b # s @ rest) [] = []"
    using "3.prems" no_match_other_start [of a k] no_match_single_brace [of b k a]
    by (cases "a = CHR ''{''") auto
  from search_fail_step [OF this] tl show ?case by simp
qed

lemma noOpen_no_brace: "CHR ''{'' \<notin> set s \<Longrightarrow> noOpen s"
  by (induction s rule: noOpen.induct) auto

lemma spaces_no_brace: "spaces ws \<Longrightarrow> CHR ''{'' \<notin> set ws"
  using brace_not_space(2) by (auto simp: spaces_def list_all_iff)

lemma plain_no_brace: "list_all plainChar r \<Longrightarrow> CHR ''{'' \<notin> set r"
  using plainChar_facts(2) by (auto simp: list_all_iff)

lemma search_skip_occurrence:
  assumes k: "plainRef k" and wf: "wellFormed (Occurrence ws1 r ws2)" and ne: "r \<noteq> k"
  shows "search (placeholderRe k) (segText (Occurrence ws1 r ws2) @ rest)
           = shiftMatch (length (segText (Occurrence ws1 r ws2))) (search (placeholderRe k) rest)"
proof -
  let ?u = "ws1 @ r @ ws2 @ ''}}''"
  from wf have w1: "spaces ws1" and w2: "spaces ws2" and pr: "list_all plainChar r" and rne: "r \<noteq> []"
    by (simp_all add: plainRef_def)
  have nb: "CHR ''{'' \<notin> set ?u"
    using spaces_no_brace [OF w1] spaces_no_brace [OF w2] plain_no_brace [OF pr] by simp
  have inner: "search (placeholderRe k) (?u @ rest)
      = shiftMatch (length ?u) (search (placeholderRe k) rest)"
    by (rule search_skip_plain [OF noOpen_no_brace [OF nb]])
  obtain y us where u: "?u = y # us"
    by (cases ?u) simp_all
  then have "y \<in> set ?u" by simp
  with nb have yb: "y \<noteq> CHR ''{''" by metis
  define ys where "ys = us @ rest"
  have y: "?u @ rest = y # ys"
    using u by (simp add: ys_def)
  have f0: "backtrack (placeholderRe k) (CHR ''{'' # CHR ''{'' # ?u @ rest) [] = []"
    using occurrence_match [OF k wf, of rest "[]"] ne by simp
  have f1: "backtrack (placeholderRe k) (CHR ''{'' # ?u @ rest) [] = []"
    using no_match_single_brace [OF yb, of k "CHR ''{''" ys] y by simp
  have "search (placeholderRe k) (CHR ''{'' # CHR ''{'' # ?u @ rest)
      = shiftMatch 1 (shiftMatch 1 (search (placeholderRe k) (?u @ rest)))"
    using search_fail_step [OF f0] search_fail_step [OF f1] by simp
  with inner show ?thesis by simp
qed

lemma search_at_occurrence:
  assumes k: "plainRef k" and wf: "wellFormed (Occurrence ws1 k ws2)"
  shows "search (placeholderRe k) (segText (Occurrence ws1 k ws2) @ rest)
           = Some (0, length (segText (Occurrence ws1 k ws2)), [])"
  using search_hit [of "placeholderRe k" "segText (Occurrence ws1 k ws2) @ rest" rest "[]" "[]"]
    occurrence_match [OF k wf, of rest "[]"]
  by simp

lemma placeholder_match_nonempty:
  assumes "(s', c') \<in> set (backtrack (placeholderRe k) s c)"
  shows "length s' < length s"
proof (cases s)
  case Nil
  with assms show ?thesis by (simp add: no_match_empty)
next
  case (Cons x xs)
  with assms have "(s', c') \<in> set (backtrack (Concat (Literal CHR ''{'')
       (Concat (Star True (CharClass spaceChars)) (collapse Concat (map Literal k @ tailItems)))) xs c)"
    by (auto simp: placeholderRe_unfold backtrack_Literal_Concat split: if_splits)
  from backtrack_length [OF this] Cons show ?thesis by simp
qed

lemma search_nonempty:
  "search (placeholderRe k) s = Some (a0, a1, c) \<Longrightarrow> a0 < a1"
proof (induction s arbitrary: a0 a1)
  case Nil
  then show ?case by (simp add: no_match_empty)
next
  case (Cons x xs)
  show ?case
  proof (cases "backtrack (placeholderRe k) (x # xs) []")
    case Nil
    with Cons.prems Cons.IH show ?thesis
      by (auto split: option.splits)
  next
    case (Cons p ps)
    obtain s' c' where p: "p = (s', c')" by (cases p)
    have "(s', c') \<in> set (backtrack (placeholderRe k) (x # xs) [])"
      using Cons p by simp
    from placeholder_match_nonempty [OF this] Cons p Cons.prems show ?thesis
      by auto
  qed
qed

lemma doExecute_nonempty:
  "doExecute (placeholderRe k) src sp = Some (a0, a1, c) \<Longrightarrow> a0 < a1"
  by (auto simp: doExecute_def split: option.splits dest: search_nonempty)

subsection \<open>The replacement loop on the pattern of a plain reference\<close>

lemma replaceAll_None:
  "sp \<le> length src \<Longrightarrow> doExecute re src sp = None
     \<Longrightarrow> replaceAll re src v buf lme sp = buf @ drop lme src"
  by (subst replaceAll.simps) simp

lemma replaceAll_Some:
  assumes sp: "sp \<le> length src" and ex: "doExecute re src sp = Some (a0, a1, c)"
    and ne: "a0 < a1" and lme: "lme \<le> sp"
  shows "replaceAll re src v buf lme sp
           = replaceAll re src v
               (buf @ take (a0 - lme) (drop lme src) @ expand v (take (a1 - a0) (drop a0 src)) c)
               a1 a1"
proof -
  from doExecute_bounds [OF ex sp] have b: "sp \<le> a0" "a1 \<le> length src" by simp_all
  with ne lme have "lme < a1" "sp < length src" "\<not> a1 < sp + 1" by simp_all
  then show ?thesis
    by (subst replaceAll.simps) (simp add: sp ex Let_def)
qed

lemma replaceAll_skip:
  assumes eq: "doExecute (placeholderRe k) src sp = doExecute (placeholderRe k) src sp'"
    and le: "sp \<le> sp'" "sp' \<le> length src" "lme \<le> sp"
  shows "replaceAll (placeholderRe k) src v buf lme sp = replaceAll (placeholderRe k) src v buf lme sp'"
proof (cases "doExecute (placeholderRe k) src sp'")
  case None
  with eq le show ?thesis by (simp add: replaceAll_None)
next
  case (Some m)
  obtain a0 a1 c where m: "m = (a0, a1, c)" by (cases m)
  have ne: "a0 < a1" using doExecute_nonempty Some m by blast
  have "replaceAll (placeholderRe k) src v buf lme sp
      = replaceAll (placeholderRe k) src v
               (buf @ take (a0 - lme) (drop lme src) @ expand v (take (a1 - a0) (drop a0 src)) c)
               a1 a1"
    using eq Some m le ne by (intro replaceAll_Some) simp_all
  moreover have "replaceAll (placeholderRe k) src v buf lme sp'
      = replaceAll (placeholderRe k) src v
               (buf @ take (a0 - lme) (drop lme src) @ expand v (take (a1 - a0) (drop a0 src)) c)
               a1 a1"
    using Some m le ne by (intro replaceAll_Some) simp_all
  ultimately show ?thesis by simp
qed

lemma replaceAll_render:
  assumes k: "plainRef k"
  shows "list_all wellFormed segs \<Longrightarrow> lme \<le> length pre
     \<Longrightarrow> replaceAll (placeholderRe k) (pre @ render segs) v buf lme (length pre)
         = buf @ drop lme pre @ concat (map (replaced k v) segs)"
proof (induction segs arbitrary: pre buf lme)
  case Nil
  have "doExecute (placeholderRe k) (pre @ []) (length pre) = None"
    by (simp only: doExecute_append) (simp add: no_match_empty)
  then show ?case
    using replaceAll_None [of "length pre" pre "placeholderRe k" v buf lme]
    by (simp add: render_def)
next
  case (Cons seg segs)
  let ?re = "placeholderRe k"
  let ?u = "segText seg"
  let ?rest = "render segs"
  have src: "pre @ render (seg # segs) = (pre @ ?u) @ ?rest"
    by (simp add: render_def)
  from Cons.prems have wf: "wellFormed seg" and wfs: "list_all wellFormed segs" by simp_all
  have hit: "\<exists>ws1 ws2. seg = Occurrence ws1 k ws2 \<or> \<not> (\<exists>ws1 ws2. seg = Occurrence ws1 k ws2)"
    by blast
  show ?case
  proof (cases "\<exists>ws1 ws2. seg = Occurrence ws1 k ws2")
    case True
    then obtain ws1 ws2 where seg: "seg = Occurrence ws1 k ws2" by blast
    have "search ?re (?u @ ?rest) = Some (0, length ?u, [])"
      using search_at_occurrence [OF k] wf unfolding seg by blast
    then have ex: "doExecute ?re (pre @ ?u @ ?rest) (length pre)
        = Some (length pre, length pre + length ?u, [])"
      by (simp add: doExecute_append)
    have pos: "length pre < length pre + length ?u"
      by (simp add: seg)
    have step: "replaceAll ?re (pre @ ?u @ ?rest) v buf lme (length pre)
        = replaceAll ?re (pre @ ?u @ ?rest) v
            (buf @ take (length pre - lme) (drop lme (pre @ ?u @ ?rest))
               @ expand v (take (length pre + length ?u - length pre)
                             (drop (length pre) (pre @ ?u @ ?rest))) [])
            (length pre + length ?u) (length pre + length ?u)"
      by (rule replaceAll_Some [OF _ ex pos Cons.prems(2)]) simp
    have t1: "take (length pre - lme) (drop lme (pre @ ?u @ ?rest)) = drop lme pre"
      using Cons.prems(2) by simp
    have t2: "take (length pre + length ?u - length pre) (drop (length pre) (pre @ ?u @ ?rest)) = ?u"
      by simp
    have ih: "replaceAll ?re ((pre @ ?u) @ ?rest) v (buf @ drop lme pre @ expand v ?u [])
                 (length (pre @ ?u)) (length (pre @ ?u))
        = (buf @ drop lme pre @ expand v ?u []) @ drop (length (pre @ ?u)) (pre @ ?u)
            @ concat (map (replaced k v) segs)"
      by (rule Cons.IH [OF wfs]) simp
    have "replaced k v seg = expand v ?u []" by (simp add: seg)
    with step ih show ?thesis
      unfolding src t1 t2 by simp
  next
    case False
    have skip: "search ?re (?u @ ?rest) = shiftMatch (length ?u) (search ?re ?rest)"
    proof (cases seg)
      case (Plain s)
      with wf show ?thesis by (simp add: search_skip_plain)
    next
      case (Occurrence ws1 r ws2)
      with False have "r \<noteq> k" by simp
      from search_skip_occurrence [OF k _ this] wf Occurrence show ?thesis by blast
    qed
    have same: "replaced k v seg = ?u"
      using False by (cases seg) auto
    have "doExecute ?re ((pre @ ?u) @ ?rest) (length pre)
        = doExecute ?re ((pre @ ?u) @ ?rest) (length (pre @ ?u))"
      using doExecute_append [of ?re pre "?u @ ?rest"] doExecute_append [of ?re "pre @ ?u" ?rest] skip
      by simp
    then have "replaceAll ?re ((pre @ ?u) @ ?rest) v buf lme (length pre)
        = replaceAll ?re ((pre @ ?u) @ ?rest) v buf lme (length (pre @ ?u))"
      using Cons.prems(2) by (intro replaceAll_skip) simp_all
    also have "\<dots> = buf @ drop lme (pre @ ?u) @ concat (map (replaced k v) segs)"
      using Cons.prems(2) by (intro Cons.IH [OF wfs]) simp
    finally show ?thesis
      using Cons.prems(2) unfolding src by (simp add: same)
  qed
qed

lemma ReplaceAllString_render:
  assumes "plainRef k" "list_all wellFormed segs"
  shows "ReplaceAllString (placeholderRe k) (render segs) v = concat (map (replaced k v) segs)"
  using replaceAll_render [OF assms, of 0 "[]" v "[]"] by (simp add: ReplaceAllString_def)


subsection \<open>Compiling the pattern of a plain reference\<close>

lemma parseStep_plain:
  "plainChar c \<Longrightarrow> parseStep c t stack numCap lastRepeat
     = Parsed (Node (Literal c) # stack, numCap, False, False)"
  by (simp add: plainChar_def metaChars_def parseStep_def)

lemma parseLoop_plain:
  "list_all plainChar k \<Longrightarrow> parseLoop (k @ t) stack numCap lastRepeat
     = parseLoop t (rev (map (\<lambda>c. Node (Literal c)) k) @ stack) numCap
         (if k = [] then lastRepeat else False)"
proof (induction k arbitrary: stack lastRepeat)
  case Nil
  show ?case by simp
next
  case (Cons a k)
  then have a: "plainChar a" and k: "list_all plainChar k" by simp_all
  show ?case
    using Cons.IH [OF k, of "Node (Literal a) # stack" False]
    by (simp add: parseStep_plain [OF a])
qed

lemma all_nodes:
  "list_all isNode stack \<Longrightarrow> takeWhile isNode stack = stack \<and> dropWhile isNode stack = []"
  by (induction stack) auto

lemma compile_plain:
  assumes "plainRef k"
  shows "MustCompile (placeholderPattern k) = Parsed (placeholderRe k)"
proof -
  from assms obtain a k' where ak: "k = a # k'" and a: "plainChar a" and pk: "list_all plainChar k"
    by (cases k) (auto simp: plainRef_def)
  have notq: "a \<noteq> CHR ''?''"
    using a by (auto simp: plainChar_def metaChars_def)
  let ?st1 = "[Node (Star True (CharClass spaceChars)), Node (Literal CHR ''{''), Node (Literal CHR ''{'')]"
  have head: "parseLoop (''{{'' @ [CHR 0x5C] @ ''s*'' @ k @ [CHR 0x5C] @ ''s*}}'') [] 0 False
      = parseLoop (k @ [CHR 0x5C] @ ''s*}}'') ?st1 0 True"
    using notq
    by (simp add: ak parseStep_def escapeStep_def escapeP_def repeatStep_def repeatP_def
        isAscii_def digitChars_def)
  let ?st2 = "rev (map (\<lambda>c. Node (Literal c)) k) @ ?st1"
  have mid: "parseLoop (k @ [CHR 0x5C] @ ''s*}}'') ?st1 0 True
      = parseLoop ([CHR 0x5C] @ ''s*}}'') ?st2 0 False"
    using parseLoop_plain [OF pk, of "[CHR 0x5C] @ ''s*}}''" ?st1 0 True] by (simp add: ak)
  let ?st3 = "[Node (Literal CHR ''}''), Node (Literal CHR ''}''),
               Node (Star True (CharClass spaceChars))] @ ?st2"
  have tail: "parseLoop ([CHR 0x5C] @ ''s*}}'') ?st2 0 False
      = (case closeAlternation ?st3 of [Node re] \<Rightarrow> Parsed re | _ \<Rightarrow> SyntaxError)"
    by (simp add: parseStep_def escapeStep_def escapeP_def repeatStep_def repeatP_def
        isAscii_def digitChars_def)
  define st where "st = ?st3"
  define items where "items = [Literal CHR ''{'', Literal CHR ''{'', Star True (CharClass spaceChars)]
        @ map Literal k
        @ [Star True (CharClass spaceChars), Literal CHR ''}'', Literal CHR ''}'']"
  have nodes: "list_all isNode st"
    by (simp add: st_def list_all_iff)
  have tw: "takeWhile isNode st = st" and dw: "dropWhile isNode st = []"
    using all_nodes [OF nodes] by simp_all
  have items: "rev (map nodeOf st) = items"
    by (simp add: st_def items_def rev_map comp_def)
  have ne: "items \<noteq> []"
    by (simp add: items_def)
  have "concatP st = [Node (collapse Concat items)]"
    unfolding concatP_def Let_def tw dw items using ne by simp
  then have "closeAlternation st = [Node (collapse Concat items)]"
    by (simp add: closeAlternation_def alternateP_def)
  then have "closeAlternation ?st3 = [Node (placeholderRe k)]"
    unfolding st_def items_def placeholderRe_def .
  with head mid tail show ?thesis
    by (simp add: MustCompile_def placeholderPattern_def)
qed


subsection \<open>The substitution loop on plain references\<close>

lemma expand_no_dollar: "CHR ''$'' \<notin> set v \<Longrightarrow> expand v whole c = v"
  by (induction v) auto

lemma replaced_substSeg:
  "CHR ''$'' \<notin> set v \<Longrightarrow> concat (map (replaced k v) segs) = render (map (substSeg k v) segs)"
proof (induction segs)
  case Nil
  show ?case by (simp add: render_def)
next
  case (Cons seg segs)
  then show ?case
    by (cases seg) (auto simp: render_def expand_no_dollar)
qed

lemma wellFormed_substSeg:
  "noOpen v \<Longrightarrow> list_all wellFormed segs \<Longrightarrow> list_all wellFormed (map (substSeg k v) segs)"
proof (induction segs)
  case (Cons seg segs)
  then show ?case by (cases seg) auto
qed simp

lemma resolvedSeg_step:
  "resolvedSeg es (substSeg k (Value p) seg) = resolvedSeg ((k, p) # es) seg"
  by (cases seg) auto

lemma substitute_render:
  "list_all wellFormed segs
     \<Longrightarrow> \<forall>(key, param) \<in> set entries. plainRef key \<and> literalValue (Value param)
     \<Longrightarrow> substitute entries (render segs) = Returns (render (map (resolvedSeg entries) segs))"
proof (induction entries arbitrary: segs)
  case Nil
  have "map (resolvedSeg []) segs = segs"
  proof (induction segs)
    case (Cons seg segs)
    then show ?case by (cases seg) auto
  qed simp
  then show ?case by simp
next
  case (Cons e es)
  obtain k p where e: "e = (k, p)" by (cases e)
  from Cons.prems(2) e have k: "plainRef k" and v: "CHR ''$'' \<notin> set (Value p)" "noOpen (Value p)"
    and rest: "\<forall>(key, param) \<in> set es. plainRef key \<and> literalValue (Value param)"
    by (auto simp: literalValue_def)
  have "ReplaceAllString (placeholderRe k) (render segs) (Value p)
      = render (map (substSeg k (Value p)) segs)"
    using ReplaceAllString_render [OF k Cons.prems(1)] replaced_substSeg [OF v(1)] by simp
  then have "substitute (e # es) (render segs)
      = substitute es (render (map (substSeg k (Value p)) segs))"
    by (simp add: e compile_plain [OF k])
  also have "\<dots> = Returns (render (map (resolvedSeg es) (map (substSeg k (Value p)) segs)))"
    by (rule Cons.IH [OF wellFormed_substSeg [OF v(2) Cons.prems(1)] rest])
  also have "map (resolvedSeg es) (map (substSeg k (Value p)) segs) = map (resolvedSeg (e # es)) segs"
    by (simp add: e resolvedSeg_step)
  finally show ?case .
qed

lemma resolvedSeg_cong:
  "map_of m1 = map_of m2 \<Longrightarrow> resolvedSeg m1 seg = resolvedSeg m2 seg"
  by (cases seg) auto

lemma map_of_permutation:
  assumes "distinct (map fst m)" "mset m1 = mset m"
  shows "map_of m1 = map_of m"
proof -
  have "mset (map fst m1) = mset (map fst m)"
    using assms(2) by (metis mset_map)
  then have "distinct (map fst m1)"
    using assms(1) by (metis mset_eq_imp_distinct_iff)
  moreover have "set m1 = set m"
    using assms(2) by (metis set_mset_mset)
  ultimately show ?thesis
    using assms(1) by (simp add: map_of_inject_set)
qed

subsection \<open>The order of the substitution\<close>

text \<open>
  Claim C4, as amended. For a text made of placeholders with plain references and of text
  without \<^verbatim>\<open>{{\<close> that does not end in \<^verbatim>\<open>{\<close>, and a map with plain keys and literal values, the
  substitution loop returns the same text in whatever order it visits the entries: every
  placeholder of a key is replaced by the key's value and nothing else is changed.
\<close>

theorem substitution_order_irrelevant:
  assumes "list_all wellFormed segs"
    and "\<forall>(key, param) \<in> set m. plainRef key \<and> literalValue (Value param)"
    and "distinct (map fst m)"
    and "mset m1 = mset m" and "mset m2 = mset m"
  shows "substitute m1 (render segs) = substitute m2 (render segs)
         \<and> substitute m1 (render segs) = Returns (render (map (resolvedSeg m) segs))
         \<and> substitute (rangeOrder ord1 m) (render segs) = substitute (rangeOrder ord2 m) (render segs)"
proof -
  have perm: "substitute m' (render segs) = Returns (render (map (resolvedSeg m) segs))"
    if "mset m' = mset m" for m'
  proof -
    have "set m' = set m" using that by (metis set_mset_mset)
    with assms(2) have "\<forall>(key, param) \<in> set m'. plainRef key \<and> literalValue (Value param)"
      by simp
    from substitute_render [OF assms(1) this]
    have "substitute m' (render segs) = Returns (render (map (resolvedSeg m') segs))" .
    moreover have "map (resolvedSeg m') segs = map (resolvedSeg m) segs"
      using resolvedSeg_cong [OF map_of_permutation [OF assms(3) that]] by simp
    ultimately show ?thesis by simp
  qed
  from perm [OF assms(4)] perm [OF assms(5)]
    perm [OF mset_rangeOrder [of ord1 m]] perm [OF mset_rangeOrder [of ord2 m]]
  show ?thesis by simp
qed

theorem substitution_order_irrelevant_witness:
  "list_all wellFormed [Plain ''{host: '', Occurrence '' '' ''db/host'' '' '', Plain '', port: '',
                         Occurrence [] ''db/port'' ''  '', Plain ''}'']
   \<and> substitute [(''db/host'', plainInfo ''10.0.0.1''), (''db/port'', plainInfo ''5432'')]
         ''{host: {{ db/host }}, port: {{db/port  }}}''
       = Returns ''{host: 10.0.0.1, port: 5432}''
   \<and> substitute [(''db/port'', plainInfo ''5432''), (''db/host'', plainInfo ''10.0.0.1'')]
         ''{host: {{ db/host }}, port: {{db/port  }}}''
       = Returns ''{host: 10.0.0.1, port: 5432}''"
proof -
  let ?segs = "[Plain ''{host: '', Occurrence '' '' ''db/host'' '' '', Plain '', port: '',
                Occurrence [] ''db/port'' ''  '', Plain ''}'']"
  let ?m = "[(''db/host'', plainInfo ''10.0.0.1''), (''db/port'', plainInfo ''5432'')]"
  let ?m2 = "[(''db/port'', plainInfo ''5432''), (''db/host'', plainInfo ''10.0.0.1'')]"
  have wf: "list_all wellFormed ?segs"
    by (simp add: spaces_def plainRef_def plainChar_def isAscii_def metaChars_def spaceChars_def)
  have vals: "\<forall>(key, param) \<in> set ?m. plainRef key \<and> literalValue (Value param)"
    by (simp add: plainRef_def plainChar_def isAscii_def metaChars_def spaceChars_def
        literalValue_def plainInfo_def)
  have d: "distinct (map fst ?m)" by simp
  have p1: "mset ?m = mset ?m" by simp
  have p2: "mset ?m2 = mset ?m" by simp
  have r: "render ?segs = ''{host: {{ db/host }}, port: {{db/port  }}}''"
    by (simp add: render_def)
  have out: "render (map (resolvedSeg ?m) ?segs) = ''{host: 10.0.0.1, port: 5432}''"
    by (simp add: render_def plainInfo_def)
  note th = substitution_order_irrelevant [OF wf vals d p1 p2, of "[]" "[]", unfolded r out]
  from th have e1: "substitute ?m ''{host: {{ db/host }}, port: {{db/port  }}}''
      = substitute ?m2 ''{host: {{ db/host }}, port: {{db/port  }}}''"
    by (rule conjunct1)
  from th have e2: "substitute ?m ''{host: {{ db/host }}, port: {{db/port  }}}''
      = Returns ''{host: 10.0.0.1, port: 5432}''"
    by (rule conjunct1 [OF conjunct2])
  from e1 [symmetric] e2 have e3: "substitute ?m2 ''{host: {{ db/host }}, port: {{db/port  }}}''
      = Returns ''{host: 10.0.0.1, port: 5432}''"
    by (rule trans)
  from wf e2 e3 show ?thesis by blast
qed

text \<open>
  Claim C4 as stated fails: when the value of one entry holds the placeholder of another,
  two orders of the same map give two texts.
\<close>

theorem substitution_order_matters:
  "ResolveParametersInText (exampleDeps []) noOrders
      (Inr [(''a'', plainInfo ''{{ b }}''), (''b'', plainInfo ''X'')]) ''{{ a }} {{ b }}''
      secureOff emptyWorld
     = (Returns (''X X'', None), \<lparr>lookups = [[''a'', ''b'']], writes = []\<rparr>)
   \<and> ResolveParametersInText (exampleDeps []) (noOrders\<lparr>substOrder := [1]\<rparr>)
      (Inr [(''a'', plainInfo ''{{ b }}''), (''b'', plainInfo ''X'')]) ''{{ a }} {{ b }}''
      secureOff emptyWorld
     = (Returns (''{{ b }} X'', None), \<lparr>lookups = [[''a'', ''b'']], writes = []\<rparr>)"
  by code_simp

subsection \<open>Duplicate references\<close>


















subsection \<open>Values with a dollar sign\<close>

text \<open>
  Claim C5. A reference taken from a placeholder, wrapped again in the pattern, matches
  the placeholder whatever the white space inside the braces: \<^verbatim>\<open>{{ name }}\<close> and
  \<^verbatim>\<open>{{  name  }}\<close> both give the reference \<^verbatim>\<open>name\<close> and both are rewritten. They should be
  rewritten to the value; but \<^verbatim>\<open>ReplaceAllString\<close> expands the value as a template, so that
  of the value \<^verbatim>\<open>US$100\<close> only \<^verbatim>\<open>US\<close> arrives in the text.
\<close>

theorem dollar_value_not_substituted:
  "parseParametersFromTextIntoMap (exampleDeps []) (refsOrder noOrders)
      ''{{ name }} or {{  name  }}'' secureOff = Returns (Inr [''name''])
   \<and> ResolveParametersInText (exampleDeps []) noOrders (Inr [(''name'', plainInfo ''US$100'')])
        ''{{ name }} or {{  name  }}'' secureOff emptyWorld
       = (Returns (''US or US'', None), \<lparr>lookups = [[''name'']], writes = []\<rparr>)"
  by code_simp

subsection \<open>The example of the specification\<close>

text \<open>
  The end-to-end example of the specification, with secure parameters allowed: one lookup
  call with both references, both placeholders replaced.
\<close>

lemma end_to_end_example:
  "ResolveParametersInText (exampleDeps []) noOrders
      (Inr [(''db/host'', plainInfo ''10.0.0.1''), (''ssm-secure:db/pass'', secureInfo ''p@ss'')])
      ''Host: {{ db/host }}, Secret: {{ ssm-secure:db/pass }}'' secureOn emptyWorld
     = (Returns (''Host: 10.0.0.1, Secret: p@ss'', None),
        \<lparr>lookups = [[''db/host'', ''ssm-secure:db/pass'']], writes = []\<rparr>)"
  by code_simp

subsection \<open>The file operation on the error paths of the text operation\<close>

text \<open>
  The file operation returns the policy error of the parser as well, and it panics on a key
  that does not compile, as the text operation does: its loop is the same.
\<close>

lemma file_returns_policy_error:
  assumes "inputFileName \<noteq> []" "outputFileName \<noteq> []"
    and "validateFileAndSize d inputFileName = None"
    and "readTextFromFile d inputFileName = Inr unresolvedText"
    and "parseParametersFromTextIntoMap d (refsOrder ords) unresolvedText options = Returns (Inl err)"
  shows "ResolveParametersInFile d ords service inputFileName outputFileName options w
           = (Returns (Some err), w)"
  using assms by (simp add: ResolveParametersInFile_def ExtractParametersFromText_def)

lemma file_resolution_panics_on_bad_key:
  assumes "inputFileName \<noteq> []" "outputFileName \<noteq> []"
    and "validateFileAndSize d inputFileName = None"
    and "readTextFromFile d inputFileName = Inr unresolvedText"
    and "ExtractParametersFromText d ords service unresolvedText options w = (Returns (Inr m), w')"
    and "(ref, param) \<in> set m" and "MustCompile (placeholderPattern ref) = SyntaxError"
    and "\<forall>(ref', param') \<in> set m. MustCompile (placeholderPattern ref') \<noteq> Unsupported"
  shows "fst (ResolveParametersInFile d ords service inputFileName outputFileName options w) = Panics"
proof -
  have s: "set (rangeOrder (substOrder ords) m) = set m" by (rule set_rangeOrder)
  have "substitute (rangeOrder (substOrder ords) m) unresolvedText = Panics"
    using assms(6-8) s substitute_Panics [of ref param "rangeOrder (substOrder ords) m" unresolvedText]
    by simp
  moreover have "m \<noteq> []" using assms(6) by auto
  ultimately show ?thesis
    using assms(1-5) by (simp add: ResolveParametersInFile_def)
qed

end
